theory Spec2Isabelle
  imports Complex_Main "HOL-Library.List_Lexorder" "HOL-Library.Multiset"
begin

section \<open>Python strings\<close>

text \<open>
  A Python \<open>str\<close> is a sequence of code points. The strings that enter the crawler
  (URLs, robots.txt text, endpoint strings) are modelled as \<^typ>\<open>string\<close>: lists of
  \<^typ>\<open>char\<close>, each standing for the code point of the same number, so the model covers
  the strings whose code points lie below 256. Only percent-decoding can produce larger
  code points; decoded query keys and values are therefore lists of natural numbers
  (section on \<open>urllib.parse\<close>).
\<close>

text \<open>\<open>s.startswith(p)\<close> and \<open>s.endswith(x)\<close>.\<close>

definition startswith :: "string \<Rightarrow> string \<Rightarrow> bool" where
  "startswith s p = (take (length p) s = p)"

definition endswith :: "string \<Rightarrow> string \<Rightarrow> bool" where
  "endswith s x = (length x \<le> length s \<and> drop (length s - length x) s = x)"

text \<open>\<open>needle in hay\<close> for strings: some suffix of \<open>hay\<close> starts with \<open>needle\<close>.\<close>

fun py_in :: "string \<Rightarrow> string \<Rightarrow> bool" where
  "py_in needle [] = (needle = [])"
| "py_in needle (c # cs) = (startswith (c # cs) needle \<or> py_in needle cs)"

text \<open>
  \<open>str.isdigit\<close> below code point 256: the ASCII digits and the superscripts
  U+00B2, U+00B3 and U+00B9.
\<close>

definition isdigit :: "char \<Rightarrow> bool" where
  "isdigit c = (c \<in> set ''0123456789'' \<or> c \<in> {CHR 0xB2, CHR 0xB3, CHR 0xB9})"

text \<open>
  A dictionary of lists in insertion order, as built by \<open>d[k].append(e)\<close> on a
  \<open>defaultdict(list)\<close> or by the \<open>if name in d: ... else: d[name] = [value]\<close> of
  \<open>parse_qs\<close>: a key appears when its first element is appended.
\<close>

fun dict_append :: "('k \<times> 'v list) list \<Rightarrow> 'k \<Rightarrow> 'v \<Rightarrow> ('k \<times> 'v list) list" where
  "dict_append [] k e = [(k, [e])]"
| "dict_append ((k', l) # d) k e =
     (if k' = k then (k', l @ [e]) # d else (k', l) # dict_append d k e)"

text \<open>
  Character classes and case. \<open>str.lower\<close> below code point 256 moves the letters
  \<open>A\<close> to \<open>Z\<close> and U+00C0 to U+00DE (without U+00D7) up by 32 and keeps every other
  character; \<open>str.isspace\<close>, which \<open>str.strip()\<close> uses, holds for U+0009 to U+000D,
  U+001C to U+0020, U+0085 and U+00A0.
\<close>

definition isascii :: "char \<Rightarrow> bool" where
  "isascii c = ((of_char c :: nat) < 128)"

definition ascii_lowercase :: string where
  "ascii_lowercase = ''abcdefghijklmnopqrstuvwxyz''"

definition ascii_uppercase :: string where
  "ascii_uppercase = ''ABCDEFGHIJKLMNOPQRSTUVWXYZ''"

definition latin1_uppercase :: string where
  "latin1_uppercase =
     [CHR 0xC0, CHR 0xC1, CHR 0xC2, CHR 0xC3, CHR 0xC4, CHR 0xC5, CHR 0xC6, CHR 0xC7,
      CHR 0xC8, CHR 0xC9, CHR 0xCA, CHR 0xCB, CHR 0xCC, CHR 0xCD, CHR 0xCE, CHR 0xCF,
      CHR 0xD0, CHR 0xD1, CHR 0xD2, CHR 0xD3, CHR 0xD4, CHR 0xD5, CHR 0xD6,
      CHR 0xD8, CHR 0xD9, CHR 0xDA, CHR 0xDB, CHR 0xDC, CHR 0xDD, CHR 0xDE]"

definition latin1_lowercase :: string where
  "latin1_lowercase =
     [CHR 0xE0, CHR 0xE1, CHR 0xE2, CHR 0xE3, CHR 0xE4, CHR 0xE5, CHR 0xE6, CHR 0xE7,
      CHR 0xE8, CHR 0xE9, CHR 0xEA, CHR 0xEB, CHR 0xEC, CHR 0xED, CHR 0xEE, CHR 0xEF,
      CHR 0xF0, CHR 0xF1, CHR 0xF2, CHR 0xF3, CHR 0xF4, CHR 0xF5, CHR 0xF6,
      CHR 0xF8, CHR 0xF9, CHR 0xFA, CHR 0xFB, CHR 0xFC, CHR 0xFD, CHR 0xFE]"

definition py_lower_char :: "char \<Rightarrow> char" where
  "py_lower_char c =
     (case map_of (zip (ascii_uppercase @ latin1_uppercase) (ascii_lowercase @ latin1_lowercase)) c of
        Some l \<Rightarrow> l | None \<Rightarrow> c)"

definition py_lower :: "string \<Rightarrow> string" where
  "py_lower s = map py_lower_char s"

definition isspace :: "char \<Rightarrow> bool" where
  "isspace c =
     (let n = (of_char c :: nat)
      in (9 \<le> n \<and> n \<le> 13) \<or> (28 \<le> n \<and> n \<le> 32) \<or> n = 133 \<or> n = 160)"

definition py_strip :: "string \<Rightarrow> string" where
  "py_strip s = rev (dropWhile isspace (rev (dropWhile isspace s)))"

text \<open>
  \<open>s.split(sep, 1)\<close> when \<open>sep\<close> occurs in \<open>s\<close> (the text before and after its first
  occurrence), \<open>s.split(sep)\<close> and \<open>s.replace(old, new)\<close> for one-character arguments.
\<close>

definition split1 :: "char \<Rightarrow> string \<Rightarrow> string \<times> string" where
  "split1 sep s = (takeWhile (\<lambda>c. c \<noteq> sep) s, drop 1 (dropWhile (\<lambda>c. c \<noteq> sep) s))"

fun py_split :: "char \<Rightarrow> string \<Rightarrow> string list" where
  "py_split sep [] = [[]]"
| "py_split sep (c # cs) =
     (if c = sep then [] # py_split sep cs
      else (case py_split sep cs of [] \<Rightarrow> [[c]] | w # ws \<Rightarrow> (c # w) # ws))"

definition py_replace :: "char \<Rightarrow> char \<Rightarrow> string \<Rightarrow> string" where
  "py_replace old new s = map (\<lambda>c. if c = old then new else c) s"

section \<open>Exceptions\<close>

text \<open>
  An exception is a value: its class and its message (\<open>str(e)\<close>). \<open>Raised\<close> stands
  for any exception of the network client, the browser or the HTML parser. Only
  subclasses of \<open>Exception\<close> are modelled, those that \<open>except Exception\<close> catches.
\<close>

datatype py_exn =
    ValueError string
  | IndexError string
  | AttributeError string
  | UnicodeEncodeError string
  | Raised string

fun exn_str :: "py_exn \<Rightarrow> string" where
  "exn_str (ValueError m) = m"
| "exn_str (IndexError m) = m"
| "exn_str (AttributeError m) = m"
| "exn_str (UnicodeEncodeError m) = m"
| "exn_str (Raised m) = m"

section \<open>The standard library: \<open>urllib.parse\<close> (CPython 3.11)\<close>

text \<open>
  \<open>urlparse\<close>, \<open>parse_qs\<close> and \<open>urlencode\<close> are library functions; they are modelled
  after the library source. Two checks of \<open>urlsplit\<close> are implemented in other modules
  (\<open>ipaddress\<close> for a bracketed host, \<open>unicodedata\<close> for the NFKC test of a non-ASCII
  netloc) and are parameters of the model: each returns \<open>None\<close>, or the message of the
  \<open>ValueError\<close> it raises.
\<close>

record stdlib =
  check_bracketed_host :: "string \<Rightarrow> string option"
  check_nfkc :: "string \<Rightarrow> string option"

record SplitResult =
  scheme :: string
  netloc :: string
  path :: string
  query :: string
  fragment :: string

record ParseResult = SplitResult +
  params :: string

text \<open>
  \<open>urlsplit\<close>: leading C0 control characters and spaces are stripped, tab, CR and LF
  removed; a scheme is split off when the text before the first colon starts with an ASCII
  letter and consists of scheme characters; after \<open>//\<close> the netloc runs to the first of
  \<open>/\<close>, \<open>?\<close>, \<open>#\<close>; then the fragment and the query are split off.
\<close>

definition scheme_chars :: "char set" where
  "scheme_chars = set (ascii_lowercase @ ascii_uppercase @ ''0123456789'' @ ''+-.'')"

definition c0_control_or_space :: "char \<Rightarrow> bool" where
  "c0_control_or_space c = ((of_char c :: nat) \<le> 32)"

definition unsafe_url_byte :: "char \<Rightarrow> bool" where
  "unsafe_url_byte c = (c \<in> {CHR 0x09, CHR 0x0D, CHR 0x0A})"

definition netloc_delim :: "char \<Rightarrow> bool" where
  "netloc_delim c = (c \<in> set ''/?#'')"

definition splitnetloc2 :: "string \<Rightarrow> string \<times> string" where
  "splitnetloc2 url =
     (takeWhile (\<lambda>c. \<not> netloc_delim c) (drop 2 url),
      dropWhile (\<lambda>c. \<not> netloc_delim c) (drop 2 url))"

definition bracketed_host :: "string \<Rightarrow> string" where
  "bracketed_host nl =
     takeWhile (\<lambda>c. c \<noteq> CHR '']'') (drop 1 (dropWhile (\<lambda>c. c \<noteq> CHR ''['') nl))"

definition checknetloc :: "stdlib \<Rightarrow> string \<Rightarrow> string option" where
  "checknetloc lib nl =
     (if nl = [] \<or> (\<forall>c \<in> set nl. isascii c) then None else check_nfkc lib nl)"

definition urlsplit :: "stdlib \<Rightarrow> string \<Rightarrow> py_exn + SplitResult" where
  "urlsplit lib url0 =
     (let url1 = dropWhile c0_control_or_space url0;
          url2 = filter (\<lambda>c. \<not> unsafe_url_byte c) url1;
          i = length (takeWhile (\<lambda>c. c \<noteq> CHR '':'') url2);
          has_scheme = (CHR '':'' \<in> set url2 \<and> i > 0
                        \<and> (case url2 of [] \<Rightarrow> False | c # _ \<Rightarrow> isascii c \<and> c \<in> set (ascii_lowercase @ ascii_uppercase))
                        \<and> (\<forall>c \<in> set (take i url2). c \<in> scheme_chars));
          sch = (if has_scheme then py_lower (take i url2) else []);
          url3 = (if has_scheme then drop (i + 1) url2 else url2);
          has_netloc = (take 2 url3 = ''//'');
          nl = (if has_netloc then fst (splitnetloc2 url3) else []);
          url4 = (if has_netloc then snd (splitnetloc2 url3) else url3);
          (url5, frag) = (if CHR ''#'' \<in> set url4 then split1 CHR ''#'' url4 else (url4, []));
          (url6, qry) = (if CHR ''?'' \<in> set url5 then split1 CHR ''?'' url5 else (url5, []))
      in if has_netloc \<and> ((CHR ''['' \<in> set nl \<and> CHR '']'' \<notin> set nl)
                          \<or> (CHR '']'' \<in> set nl \<and> CHR ''['' \<notin> set nl))
         then Inl (ValueError ''Invalid IPv6 URL'')
         else (case (if has_netloc \<and> CHR ''['' \<in> set nl \<and> CHR '']'' \<in> set nl
                     then check_bracketed_host lib (bracketed_host nl) else None) of
                 Some msg \<Rightarrow> Inl (ValueError msg)
               | None \<Rightarrow>
                  (case checknetloc lib nl of
                     Some msg \<Rightarrow> Inl (ValueError msg)
                   | None \<Rightarrow> Inr \<lparr>scheme = sch, netloc = nl, path = url6,
                                   query = qry, fragment = frag\<rparr>)))"

definition uses_params :: "string list" where
  "uses_params = ['''', ''ftp'', ''hdl'', ''prospero'', ''http'', ''imap'',
                  ''https'', ''shttp'', ''rtsp'', ''rtsps'', ''rtspu'', ''sip'',
                  ''sips'', ''mms'', ''sftp'', ''tel'']"

text \<open>
  \<open>_splitparams\<close>: the parameters start at the first semicolon of the last path segment.
\<close>

definition splitparams :: "string \<Rightarrow> string \<times> string" where
  "splitparams url =
     (let last_seg = rev (takeWhile (\<lambda>c. c \<noteq> CHR ''/'') (rev url));
          before = take (length url - length last_seg) url
      in if CHR '';'' \<in> set last_seg
         then (before @ takeWhile (\<lambda>c. c \<noteq> CHR '';'') last_seg,
               drop 1 (dropWhile (\<lambda>c. c \<noteq> CHR '';'') last_seg))
         else (url, []))"

definition urlparse :: "stdlib \<Rightarrow> string \<Rightarrow> py_exn + ParseResult" where
  "urlparse lib url =
     (case urlsplit lib url of
        Inl e \<Rightarrow> Inl e
      | Inr r \<Rightarrow>
          (let (p, prm) = (if scheme r \<in> set uses_params \<and> CHR '';'' \<in> set (path r)
                           then splitparams (path r) else (path r, []))
           in Inr \<lparr>scheme = scheme r, netloc = netloc r, path = p, query = query r,
                   fragment = fragment r, params = prm\<rparr>))"

subsection \<open>Percent-decoding\<close>

text \<open>
  \<open>unquote\<close> with the defaults \<open>encoding='utf-8', errors='replace'\<close>. Bytes and decoded
  code points are natural numbers.
\<close>

definition hexdig :: string where
  "hexdig = ''0123456789ABCDEFabcdef''"

definition hexval :: "char \<Rightarrow> nat" where
  "hexval c =
     (case map_of (zip ''0123456789ABCDEFabcdef''
                       [0, 1, 2, 3, 4, 5, 6, 7, 8, 9, 10, 11, 12, 13, 14, 15, 10, 11, 12, 13, 14, 15]) c of
        Some v \<Rightarrow> v | None \<Rightarrow> 0)"

text \<open>One item of \<open>string.split('%')[1:]\<close> in \<open>unquote_to_bytes\<close>.\<close>

fun unquote_item :: "string \<Rightarrow> nat list" where
  "unquote_item (a # b # rest) =
     (if a \<in> set hexdig \<and> b \<in> set hexdig
      then (hexval a * 16 + hexval b) # map of_char rest
      else of_char CHR ''%'' # map of_char (a # b # rest))"
| "unquote_item item = of_char CHR ''%'' # map of_char item"

definition unquote_to_bytes :: "string \<Rightarrow> nat list" where
  "unquote_to_bytes s =
     (case py_split CHR ''%'' s of
        [] \<Rightarrow> []
      | first # items \<Rightarrow> map of_char first @ concat (map unquote_item items))"

definition is_cont :: "nat \<Rightarrow> bool" where
  "is_cont b = (128 \<le> b \<and> b < 192)"

text \<open>
  \<open>bytes.decode('utf-8', 'replace')\<close>: U+FFFD (65533) replaces an invalid start byte, a
  sequence cut off by an invalid continuation byte (decoding resumes at that byte) and a
  sequence cut off by the end of the input.
\<close>

fun utf8_decode :: "nat list \<Rightarrow> nat list" where
  "utf8_decode [] = []"
| "utf8_decode (b # bs) =
     (if b < 128 then b # utf8_decode bs
      else if b < 194 then 65533 # utf8_decode bs
      else if b < 224 then
        (case bs of
           [] \<Rightarrow> [65533]
         | b2 # r2 \<Rightarrow>
             if is_cont b2 then ((b - 192) * 64 + (b2 - 128)) # utf8_decode r2
             else 65533 # utf8_decode bs)
      else if b < 240 then
        (case bs of
           [] \<Rightarrow> [65533]
         | b2 # r2 \<Rightarrow>
             if \<not> is_cont b2 \<or> (if b2 < 160 then b = 224 else b = 237)
             then 65533 # utf8_decode bs
             else (case r2 of
                     [] \<Rightarrow> [65533]
                   | b3 # r3 \<Rightarrow>
                       if is_cont b3
                       then ((b - 224) * 4096 + (b2 - 128) * 64 + (b3 - 128)) # utf8_decode r3
                       else 65533 # utf8_decode r2))
      else if b < 245 then
        (case bs of
           [] \<Rightarrow> [65533]
         | b2 # r2 \<Rightarrow>
             if \<not> is_cont b2 \<or> (if b2 < 144 then b = 240 else b = 244)
             then 65533 # utf8_decode bs
             else (case r2 of
                     [] \<Rightarrow> [65533]
                   | b3 # r3 \<Rightarrow>
                       if \<not> is_cont b3 then 65533 # utf8_decode r2
                       else (case r3 of
                               [] \<Rightarrow> [65533]
                             | b4 # r4 \<Rightarrow>
                                 if is_cont b4
                                 then ((b - 240) * 262144 + (b2 - 128) * 4096
                                       + (b3 - 128) * 64 + (b4 - 128)) # utf8_decode r4
                                 else 65533 # utf8_decode r3)))
      else 65533 # utf8_decode bs)"

text \<open>unquote on a string that contains a percent sign: maximal ASCII runs are decoded, other
  characters kept\<close>

function unquote_runs :: "string \<Rightarrow> nat list" where
  "unquote_runs s =
     (case s of
        [] \<Rightarrow> []
      | c # _ \<Rightarrow>
          if isascii c
          then utf8_decode (unquote_to_bytes (takeWhile isascii s)) @ unquote_runs (dropWhile isascii s)
          else map of_char (takeWhile (\<lambda>c. \<not> isascii c) s)
               @ unquote_runs (dropWhile (\<lambda>c. \<not> isascii c) s))"
  by pat_completeness auto
termination
proof (relation "measure length")
  show "wf (measure length)" by simp
next
  fix s :: string and c cs
  assume "s = c # cs" "isascii c"
  then show "(dropWhile isascii s, s) \<in> measure length"
    by (simp add: le_imp_less_Suc length_dropWhile_le)
next
  fix s :: string and c cs
  assume "s = c # cs" "\<not> isascii c"
  then show "(dropWhile (\<lambda>c. \<not> isascii c) s, s) \<in> measure length"
    by (simp add: le_imp_less_Suc length_dropWhile_le)
qed

definition unquote :: "string \<Rightarrow> nat list" where
  "unquote s = (if CHR ''%'' \<notin> set s then map of_char s else unquote_runs s)"

definition unquote_plus :: "string \<Rightarrow> nat list" where
  "unquote_plus s = unquote (py_replace CHR ''+'' CHR '' '' s)"

text \<open>
  \<open>parse_qsl\<close> and \<open>parse_qs\<close> with their defaults: the separator is \<open>&\<close>, and a field
  with no \<open>=\<close> or with a blank value is dropped.
\<close>

definition parse_qsl :: "string \<Rightarrow> (nat list \<times> nat list) list" where
  "parse_qsl qs =
     (if qs = [] then []
      else concat (map (\<lambda>name_value.
             if name_value \<noteq> [] then
               (let (name, v) = split1 CHR ''='' name_value
                in if v \<noteq> [] then [(unquote_plus name, unquote_plus v)] else [])
             else []) (py_split CHR ''&'' qs)))"

definition parse_qs :: "string \<Rightarrow> (nat list \<times> nat list list) list" where
  "parse_qs qs = foldl (\<lambda>parsed_result (name, v). dict_append parsed_result name v) [] (parse_qsl qs)"

subsection \<open>Percent-encoding\<close>

text \<open>
  \<open>quote_plus\<close>: the string is encoded as UTF-8 (\<open>errors='strict'\<close>: a surrogate raises
  \<open>UnicodeEncodeError\<close>, whose message is abbreviated here), then every byte outside the
  safe set is written \<open>%XX\<close>.
\<close>

definition utf8_encode_cp :: "nat \<Rightarrow> nat list option" where
  "utf8_encode_cp cp =
     (if cp < 128 then Some [cp]
      else if cp < 2048 then Some [192 + cp div 64, 128 + cp mod 64]
      else if cp < 65536 then
        (if 55296 \<le> cp \<and> cp < 57344 then None
         else Some [224 + cp div 4096, 128 + (cp div 64) mod 64, 128 + cp mod 64])
      else if cp < 1114112 then
        Some [240 + cp div 262144, 128 + (cp div 4096) mod 64, 128 + (cp div 64) mod 64, 128 + cp mod 64]
      else None)"

fun utf8_encode :: "nat list \<Rightarrow> py_exn + nat list" where
  "utf8_encode [] = Inr []"
| "utf8_encode (cp # cps) =
     (case utf8_encode_cp cp of
        None \<Rightarrow> Inl (UnicodeEncodeError ''surrogates not allowed'')
      | Some bs \<Rightarrow> (case utf8_encode cps of Inl e \<Rightarrow> Inl e | Inr r \<Rightarrow> Inr (bs @ r)))"

definition always_safe :: string where
  "always_safe = ''ABCDEFGHIJKLMNOPQRSTUVWXYZabcdefghijklmnopqrstuvwxyz0123456789_.-~''"

definition hex_upper :: "nat \<Rightarrow> char" where
  "hex_upper n = ''0123456789ABCDEF'' ! (n mod 16)"

definition quoter :: "string \<Rightarrow> nat \<Rightarrow> string" where
  "quoter safe b =
     (case find (\<lambda>c. of_char c = b) (always_safe @ safe) of
        Some c \<Rightarrow> [c]
      | None \<Rightarrow> [CHR ''%'', hex_upper (b div 16), hex_upper b])"

definition quote :: "nat list \<Rightarrow> string \<Rightarrow> py_exn + string" where
  "quote s safe =
     (case utf8_encode s of Inl e \<Rightarrow> Inl e | Inr bs \<Rightarrow> Inr (concat (map (quoter safe) bs)))"

definition quote_plus :: "nat list \<Rightarrow> py_exn + string" where
  "quote_plus s =
     (if of_char CHR '' '' \<notin> set s then quote s []
      else (case quote s '' '' of
              Inl e \<Rightarrow> Inl e
            | Inr q \<Rightarrow> Inr (py_replace CHR '' '' CHR ''+'' q)))"

text \<open>\<open>urlencode(query, doseq=True)\<close> on a list of (key, list of values); \<open>l\<close> is the list
  of encoded parameters\<close>

fun urlencode_values :: "string \<Rightarrow> nat list list \<Rightarrow> py_exn + string list" where
  "urlencode_values k [] = Inr []"
| "urlencode_values k (elt # elts) =
     (case quote_plus elt of
        Inl e \<Rightarrow> Inl e
      | Inr q \<Rightarrow> (case urlencode_values k elts of
                    Inl e \<Rightarrow> Inl e
                  | Inr l \<Rightarrow> Inr ((k @ ''='' @ q) # l)))"

fun urlencode_items :: "(nat list \<times> nat list list) list \<Rightarrow> py_exn + string list" where
  "urlencode_items [] = Inr []"
| "urlencode_items ((k, v) # rest) =
     (case quote_plus k of
        Inl e \<Rightarrow> Inl e
      | Inr qk \<Rightarrow> (case urlencode_values qk v of
                     Inl e \<Rightarrow> Inl e
                   | Inr l \<Rightarrow> (case urlencode_items rest of
                                 Inl e \<Rightarrow> Inl e
                               | Inr l' \<Rightarrow> Inr (l @ l'))))"

fun py_join :: "string \<Rightarrow> string list \<Rightarrow> string" where
  "py_join sep [] = []"
| "py_join sep [x] = x"
| "py_join sep (x # y # ys) = x @ sep @ py_join sep (y # ys)"

definition urlencode :: "(nat list \<times> nat list list) list \<Rightarrow> py_exn + string" where
  "urlencode items = (case urlencode_items items of Inl e \<Rightarrow> Inl e | Inr l \<Rightarrow> Inr (py_join ''&'' l))"

section \<open>URL normalisation\<close>

text \<open>
  \<open>utils.normalize_url\<close>. \<open>normalize_url_try\<close> is the body of the \<open>try\<close> block;
  \<open>except Exception: return url\<close> turns every exception into the input string.
  \<open>sorted(params.items())\<close> orders the (key, values) pairs of a dictionary; its keys are
  distinct, so the order is the order of the keys.
\<close>

definition normalize_url_try :: "stdlib \<Rightarrow> string \<Rightarrow> py_exn + string" where
  "normalize_url_try lib url =
     (case urlparse lib url of
        Inl e \<Rightarrow> Inl e
      | Inr parsed \<Rightarrow>
          (let normalized = scheme parsed @ ''://'' @ netloc parsed @ path parsed
           in if query parsed \<noteq> [] then
                (case urlencode (sort_key fst (parse_qs (query parsed))) of
                   Inl e \<Rightarrow> Inl e
                 | Inr query_string \<Rightarrow> Inr (normalized @ ''?'' @ query_string))
              else Inr normalized))"

definition normalize_url :: "stdlib \<Rightarrow> string \<Rightarrow> string" where
  "normalize_url lib url =
     (case normalize_url_try lib url of Inl e \<Rightarrow> url | Inr normalized \<Rightarrow> normalized)"

text \<open>\<open>WebCrawler.normalize_url\<close>: no \<open>try\<close>, the query string is kept as parsed.\<close>

definition crawler_normalize_url :: "stdlib \<Rightarrow> string \<Rightarrow> py_exn + string" where
  "crawler_normalize_url lib url =
     (case urlparse lib url of
        Inl e \<Rightarrow> Inl e
      | Inr parsed \<Rightarrow>
          (let normalized = scheme parsed @ ''://'' @ netloc parsed @ path parsed
           in if query parsed \<noteq> [] then Inr (normalized @ ''?'' @ query parsed)
              else Inr normalized))"

section \<open>Configuration\<close>

text \<open>
  The fields of \<open>CrawlConfig\<close> that the modelled functions read, with the defaults of
  the dataclass. The extension sets are \<open>None\<close> until \<open>WebCrawler.__init__\<close> fills them.
  The remaining fields (delay, timeout, headers, cookies, word lists) configure the
  network client and the discovery passes.
\<close>

record CrawlConfig =
  base_url :: string
  max_depth :: int
  max_pages :: int
  respect_robots :: bool
  override_robots :: bool
  include_subdomains :: bool
  ignored_extensions :: "string set option"
  focused_extensions :: "string set option"
  use_playwright :: bool
  enable_subdomain_enumeration :: bool
  enable_endpoint_guessing :: bool
  enable_hidden_file_scanning :: bool

definition default_config :: "string \<Rightarrow> CrawlConfig" where
  "default_config b =
     \<lparr>base_url = b, max_depth = 5, max_pages = 1000, respect_robots = True,
      override_robots = False, include_subdomains = False, ignored_extensions = None,
      focused_extensions = None, use_playwright = True,
      enable_subdomain_enumeration = False, enable_endpoint_guessing = False,
      enable_hidden_file_scanning = False\<rparr>"

definition default_ignored_extensions :: "string set" where
  "default_ignored_extensions = {''.pdf'', ''.zip'', ''.exe'', ''.dmg'', ''.mp4'', ''.mp3'', ''.avi''}"

definition default_focused_extensions :: "string set" where
  "default_focused_extensions = {''.html'', ''.php'', ''.asp'', ''.aspx'', ''.jsp'', ''.js'', ''.css''}"

text \<open>The part of \<open>WebCrawler.__init__\<close> that fills the extension sets of the configuration.\<close>

definition init_config :: "CrawlConfig \<Rightarrow> CrawlConfig" where
  "init_config cfg =
     cfg\<lparr>ignored_extensions :=
           (case ignored_extensions cfg of None \<Rightarrow> Some default_ignored_extensions | Some S \<Rightarrow> Some S),
         focused_extensions :=
           (case focused_extensions cfg of None \<Rightarrow> Some default_focused_extensions | Some S \<Rightarrow> Some S)\<rparr>"

section \<open>Admission (\<open>WebCrawler.is_valid_url\<close>)\<close>

text \<open>\<open>exts and any(path.endswith(ext) for ext in exts)\<close>: \<open>None\<close> and the empty set are false.\<close>

definition any_endswith :: "string set option \<Rightarrow> string \<Rightarrow> bool" where
  "any_endswith exts p = (case exts of None \<Rightarrow> False | Some S \<Rightarrow> (\<exists>ext \<in> S. endswith p ext))"

definition truthy_set :: "string set option \<Rightarrow> bool" where
  "truthy_set exts = (case exts of None \<Rightarrow> False | Some S \<Rightarrow> S \<noteq> {})"

text \<open>
  \<open>is_valid_url_try\<close> is the body of the \<open>try\<close> block; \<open>except Exception: return False\<close>
  rejects the URL on any exception. With \<open>include_subdomains\<close> the base netloc is split at
  its first dot, and \<open>[1]\<close> raises \<open>IndexError\<close> when it has none.
\<close>

definition is_valid_url_try :: "stdlib \<Rightarrow> CrawlConfig \<Rightarrow> string \<Rightarrow> py_exn + bool" where
  "is_valid_url_try lib cfg u =
     (case urlparse lib u of
        Inl e \<Rightarrow> Inl e
      | Inr parsed \<Rightarrow>
         (case urlparse lib (base_url cfg) of
            Inl e \<Rightarrow> Inl e
          | Inr base_parsed \<Rightarrow>
             if \<not> include_subdomains cfg \<and> netloc parsed \<noteq> netloc base_parsed then Inr False
             else if include_subdomains cfg \<and> CHR ''.'' \<notin> set (netloc base_parsed)
               then Inl (IndexError ''list index out of range'')
             else if include_subdomains cfg
                     \<and> \<not> endswith (netloc parsed) (snd (split1 CHR ''.'' (netloc base_parsed)))
               then Inr False
             else (let p = py_lower (path parsed)
                   in if truthy_set (ignored_extensions cfg) \<and> any_endswith (ignored_extensions cfg) p
                      then Inr False
                      else if truthy_set (focused_extensions cfg)
                              \<and> \<not> any_endswith (focused_extensions cfg) p
                      then Inr False
                      else Inr True)))"

definition is_valid_url :: "stdlib \<Rightarrow> CrawlConfig \<Rightarrow> string \<Rightarrow> bool" where
  "is_valid_url lib cfg u = (case is_valid_url_try lib cfg u of Inl e \<Rightarrow> False | Inr b \<Rightarrow> b)"

section \<open>robots.txt parsers\<close>

text \<open>
  \<open>utils.parse_robots_txt_content\<close>. The record holds the local variables of the loop
  over the lines; \<open>crawl_delay\<close> (a float set by the last branch of the chain, which
  touches nothing else) is left out.
\<close>

record robots_scan =
  disallowed :: "string list"
  allowed :: "string list"
  user_agents :: "string list"
  current_user_agent :: "string option"

text \<open>
  The directive and value of a line: none for a blank line, a comment or a line without
  a colon.
\<close>

definition line_directive :: "string \<Rightarrow> (string \<times> string) option" where
  "line_directive line0 =
     (let line = py_strip line0
      in if line = [] \<or> startswith line ''#'' then None
         else if CHR '':'' \<in> set line
           then Some (py_lower (py_strip (fst (split1 CHR '':'' line))),
                      py_strip (snd (split1 CHR '':'' line)))
         else None)"

definition wildcard_or_none :: "string option \<Rightarrow> bool" where
  "wildcard_or_none a = (a = Some ''*'' \<or> a = None)"

definition robots_line :: "robots_scan \<Rightarrow> string \<Rightarrow> robots_scan" where
  "robots_line st line0 =
     (case line_directive line0 of
        None \<Rightarrow> st
      | Some (directive, v) \<Rightarrow>
          if directive = ''user-agent''
          then st\<lparr>current_user_agent := Some v,
                  user_agents := (if v \<in> set (user_agents st) then user_agents st
                                  else user_agents st @ [v])\<rparr>
          else if directive = ''disallow''
          then (if wildcard_or_none (current_user_agent st)
                then st\<lparr>disallowed := disallowed st @ [v]\<rparr> else st)
          else if directive = ''allow''
          then (if wildcard_or_none (current_user_agent st)
                then st\<lparr>allowed := allowed st @ [v]\<rparr> else st)
          else st)"

text \<open>The loop over the lines, from the initial values of the local variables.\<close>

definition scan_lines :: "string list \<Rightarrow> robots_scan" where
  "scan_lines ls =
     foldl robots_line
       \<lparr>disallowed = [], allowed = [], user_agents = [], current_user_agent = None\<rparr> ls"

definition parse_robots_txt_content :: "string \<Rightarrow> robots_scan" where
  "parse_robots_txt_content content = scan_lines (py_split CHR 0x0A content)"

text \<open>
  The loop of \<open>RobotsTxtParser.parse_robots_txt\<close> over the lines of a fetched robots.txt:
  the two sets of the parser object.
\<close>

record robots_sets =
  disallowed_paths :: "string set"
  allowed_paths :: "string set"

definition crawler_robots_line :: "robots_sets \<Rightarrow> string \<Rightarrow> robots_sets" where
  "crawler_robots_line st line0 =
     (let line = py_strip line0
      in if startswith line ''Disallow:''
         then st\<lparr>disallowed_paths := insert (py_strip (snd (split1 CHR '':'' line))) (disallowed_paths st)\<rparr>
         else if startswith line ''Allow:''
         then st\<lparr>allowed_paths := insert (py_strip (snd (split1 CHR '':'' line))) (allowed_paths st)\<rparr>
         else st)"

definition crawler_parse_robots :: "string \<Rightarrow> robots_sets" where
  "crawler_parse_robots content =
     foldl crawler_robots_line \<lparr>disallowed_paths = {}, allowed_paths = {}\<rparr>
       (py_split CHR 0x0A content)"

section \<open>Endpoint grouping (\<open>WebCrawler._group_endpoints\<close>)\<close>

text \<open>
  The branch taken for one endpoint; the same chain of tests chooses the \<open>type\<close>
  column in \<open>save_to_sqlite\<close>.
\<close>

definition endpoint_bucket :: "string \<Rightarrow> string" where
  "endpoint_bucket endpoint =
     (if py_in ''/api/'' endpoint then ''api''
      else if py_in ''/rest/'' endpoint then ''rest''
      else if py_in ''/v'' endpoint \<and> (\<exists>c \<in> set endpoint. isdigit c) then ''versioned''
      else ''other'')"

definition group_endpoints :: "string list \<Rightarrow> (string \<times> string list) list" where
  "group_endpoints endpoints = foldl (\<lambda>grouped e. dict_append grouped (endpoint_bucket e) e) [] endpoints"

text \<open>The members of bucket \<open>k\<close> in the returned dictionary (none when the key is absent).\<close>

definition bucket :: "(string \<times> string list) list \<Rightarrow> string \<Rightarrow> string set" where
  "bucket grouped k = (case map_of grouped k of None \<Rightarrow> {} | Some l \<Rightarrow> set l)"

text \<open>
  The reading of the specification, for comparison: the endpoint contains \<open>/v\<close>
  immediately followed by a digit.
\<close>

fun spec_v_digit :: "string \<Rightarrow> bool" where
  "spec_v_digit (a # b # c # cs) =
     ((a = CHR ''/'' \<and> b = CHR ''v'' \<and> isdigit c) \<or> spec_v_digit (b # c # cs))"
| "spec_v_digit _ = False"

section \<open>Pages and results\<close>

text \<open>
  The dictionaries of a form, of a form field and of a hidden field, and the dataclass
  \<open>CrawlResult\<close>. Cookie and header dictionaries are association lists in insertion
  order.
\<close>

record Field =
  field_type :: string
  field_name :: string
  field_value :: string

record Form =
  form_action :: string
  form_method :: string
  form_fields :: "Field list"

record HiddenField =
  hidden_name :: string
  hidden_value :: string
  hidden_id :: string

record CrawlResult =
  url :: string
  status_code :: int
  content_type :: string
  title :: string
  forms :: "Form list"
  links :: "string list"
  api_endpoints :: "string list"
  js_files :: "string list"
  cookies :: "(string \<times> string) list"
  headers :: "(string \<times> string) list"
  hidden_fields :: "HiddenField list"
  csrf_tokens :: "string list"
  depth :: int
  timestamp :: real
  error :: "string option"

text \<open>
  The attributes of \<open>WebCrawler\<close> that a run changes; \<open>self.forms\<close>,
  \<open>self.api_endpoints\<close>, \<open>self.js_files\<close>, \<open>self.cookies\<close> and \<open>self.headers\<close> carry
  the prefix \<open>self_\<close>. \<open>fetch_log\<close> is a ghost field: the URLs handed to a fetch
  strategy, in order.
\<close>

record crawler =
  visited_urls :: "string set"
  url_queue :: "(string \<times> int) list"
  results :: "CrawlResult list"
  self_forms :: "Form list"
  self_api_endpoints :: "string set"
  self_js_files :: "string set"
  self_cookies :: "(string \<times> string) list"
  self_headers :: "(string \<times> string) list"
  subdomains :: "string list"
  guessed_endpoints :: "(string \<times> bool) list"
  hidden_files :: "(string \<times> bool) list"
  fetch_log :: "string list"

text \<open>
  What the network and the HTML parser deliver for one URL. \<open>page_anchors\<close> holds, for
  each \<open>a\<close> element with an \<open>href\<close> in document order, the outcome of \<open>urljoin\<close> on
  it (a URL, or the exception \<open>urljoin\<close> raises); \<open>page_scripts\<close> the same for the
  \<open>script\<close> sources that end in \<open>.js\<close>.
\<close>

record page =
  page_status :: int
  page_content_type :: string
  page_title :: string
  page_forms :: "Form list"
  page_anchors :: "(py_exn + string) list"
  page_api_endpoints :: "string list"
  page_scripts :: "(py_exn + string) list"
  page_cookies :: "(string \<times> string) list"
  page_headers :: "(string \<times> string) list"
  page_hidden_fields :: "HiddenField list"
  page_csrf_tokens :: "string list"

text \<open>
  The world outside the crawler: the two fetch strategies and the clock, which may answer
  differently as the crawler changes, and the outcomes of the three discovery passes
  (the subdomains found; for guessed endpoints and hidden files the URL and the
  \<open>found\<close> flag of each entry).
\<close>

record world =
  http_get :: "crawler \<Rightarrow> string \<Rightarrow> py_exn + page"
  page_goto :: "crawler \<Rightarrow> string \<Rightarrow> py_exn + page"
  time_time :: "crawler \<Rightarrow> real"
  enumerate_subdomains :: "py_exn + string list"
  guess_endpoints :: "py_exn + (string \<times> bool) list"
  scan_hidden_files :: "py_exn + (string \<times> bool) list"

text \<open>The crawler as \<open>WebCrawler.__init__\<close> leaves it.\<close>

definition init_crawler :: "CrawlConfig \<Rightarrow> crawler" where
  "init_crawler cfg =
     \<lparr>visited_urls = {}, url_queue = [(base_url cfg, 0)], results = [], self_forms = [],
      self_api_endpoints = {}, self_js_files = {}, self_cookies = [], self_headers = [],
      subdomains = [], guessed_endpoints = [], hidden_files = [], fetch_log = []\<rparr>"

subsection \<open>Link extraction\<close>

text \<open>
  \<open>_extract_links\<close> and \<open>_extract_js_files\<close> (an exception leaves the function) and their
  browser variants (each element has a \<open>try\<close> of its own, and an exception skips it).
\<close>

fun extract_links :: "stdlib \<Rightarrow> CrawlConfig \<Rightarrow> (py_exn + string) list \<Rightarrow> py_exn + string list" where
  "extract_links lib cfg [] = Inr []"
| "extract_links lib cfg (Inl e # hs) = Inl e"
| "extract_links lib cfg (Inr full_url # hs) =
     (if is_valid_url lib cfg full_url then
        (case crawler_normalize_url lib full_url of
           Inl e \<Rightarrow> Inl e
         | Inr n \<Rightarrow> (case extract_links lib cfg hs of Inl e \<Rightarrow> Inl e | Inr urls \<Rightarrow> Inr (n # urls)))
      else extract_links lib cfg hs)"

fun extract_links_playwright :: "stdlib \<Rightarrow> CrawlConfig \<Rightarrow> (py_exn + string) list \<Rightarrow> string list" where
  "extract_links_playwright lib cfg [] = []"
| "extract_links_playwright lib cfg (Inl e # hs) = extract_links_playwright lib cfg hs"
| "extract_links_playwright lib cfg (Inr full_url # hs) =
     (if is_valid_url lib cfg full_url then
        (case crawler_normalize_url lib full_url of
           Inl e \<Rightarrow> extract_links_playwright lib cfg hs
         | Inr n \<Rightarrow> n # extract_links_playwright lib cfg hs)
      else extract_links_playwright lib cfg hs)"

fun extract_js_files :: "(py_exn + string) list \<Rightarrow> py_exn + string list" where
  "extract_js_files [] = Inr []"
| "extract_js_files (Inl e # hs) = Inl e"
| "extract_js_files (Inr full_url # hs) =
     (case extract_js_files hs of Inl e \<Rightarrow> Inl e | Inr js \<Rightarrow> Inr (full_url # js))"

fun extract_js_files_playwright :: "(py_exn + string) list \<Rightarrow> string list" where
  "extract_js_files_playwright [] = []"
| "extract_js_files_playwright (Inl e # hs) = extract_js_files_playwright hs"
| "extract_js_files_playwright (Inr full_url # hs) = full_url # extract_js_files_playwright hs"


subsection \<open>Fetching one page\<close>

text \<open>
  \<open>_crawl_with_requests\<close> and \<open>_crawl_with_playwright\<close>: the page comes from the world; the
  links are the anchors admitted by \<open>is_valid_url\<close>, normalised. With the HTTP client an
  exception of \<open>urljoin\<close> or \<open>normalize_url\<close> leaves the function; with the browser each
  anchor and script has a \<open>try\<close> of its own, and no API endpoint is collected.
\<close>

definition crawl_with_requests ::
  "world \<Rightarrow> stdlib \<Rightarrow> CrawlConfig \<Rightarrow> crawler \<Rightarrow> string \<Rightarrow> int \<Rightarrow> py_exn + CrawlResult" where
  "crawl_with_requests W lib cfg s u d =
     (case http_get W s u of
        Inl e \<Rightarrow> Inl e
      | Inr pg \<Rightarrow>
         (case extract_links lib cfg (page_anchors pg) of
            Inl e \<Rightarrow> Inl e
          | Inr ls \<Rightarrow>
             (case extract_js_files (page_scripts pg) of
                Inl e \<Rightarrow> Inl e
              | Inr js \<Rightarrow>
                 Inr \<lparr>url = u, status_code = page_status pg, content_type = page_content_type pg,
                      title = page_title pg, forms = page_forms pg, links = ls,
                      api_endpoints = page_api_endpoints pg, js_files = js,
                      cookies = page_cookies pg, headers = page_headers pg,
                      hidden_fields = page_hidden_fields pg, csrf_tokens = page_csrf_tokens pg,
                      depth = d, timestamp = time_time W s, error = None\<rparr>)))"

definition crawl_with_playwright ::
  "world \<Rightarrow> stdlib \<Rightarrow> CrawlConfig \<Rightarrow> crawler \<Rightarrow> string \<Rightarrow> int \<Rightarrow> py_exn + CrawlResult" where
  "crawl_with_playwright W lib cfg s u d =
     (case page_goto W s u of
        Inl e \<Rightarrow> Inl e
      | Inr pg \<Rightarrow>
         Inr \<lparr>url = u, status_code = page_status pg, content_type = page_content_type pg,
              title = page_title pg, forms = page_forms pg,
              links = extract_links_playwright lib cfg (page_anchors pg),
              api_endpoints = [], js_files = extract_js_files_playwright (page_scripts pg),
              cookies = page_cookies pg, headers = page_headers pg,
              hidden_fields = page_hidden_fields pg, csrf_tokens = page_csrf_tokens pg,
              depth = d, timestamp = time_time W s, error = None\<rparr>)"

text \<open>The result built in the \<open>except\<close> branch of \<open>crawl_page\<close>.\<close>

definition error_result :: "string \<Rightarrow> int \<Rightarrow> real \<Rightarrow> py_exn \<Rightarrow> CrawlResult" where
  "error_result u d t e =
     \<lparr>url = u, status_code = 0, content_type = [], title = [], forms = [], links = [],
      api_endpoints = [], js_files = [], cookies = [], headers = [], hidden_fields = [],
      csrf_tokens = [], depth = d, timestamp = t, error = Some (exn_str e)\<rparr>"

text \<open>\<open>dict.update\<close> on dictionaries in insertion order.\<close>

fun dict_set :: "('k \<times> 'v) list \<Rightarrow> 'k \<Rightarrow> 'v \<Rightarrow> ('k \<times> 'v) list" where
  "dict_set [] k v = [(k, v)]"
| "dict_set ((k', v') # m) k v = (if k' = k then (k, v) # m else (k', v') # dict_set m k v)"

definition dict_update :: "('k \<times> 'v) list \<Rightarrow> ('k \<times> 'v) list \<Rightarrow> ('k \<times> 'v) list" where
  "dict_update m other = foldl (\<lambda>m' (k, v). dict_set m' k v) m other"

definition extract_global_data :: "crawler \<Rightarrow> CrawlResult \<Rightarrow> crawler" where
  "extract_global_data s r =
     s\<lparr>self_forms := self_forms s @ forms r,
       self_api_endpoints := self_api_endpoints s \<union> set (api_endpoints r),
       self_js_files := self_js_files s \<union> set (js_files r),
       self_cookies := dict_update (self_cookies s) (cookies r),
       self_headers := dict_update (self_headers s) (headers r)\<rparr>"

text \<open>
  \<open>RobotsTxtParser.can_fetch\<close> evaluates \<open>self.user_agent\<close>, an attribute that
  \<open>RobotsTxtParser\<close> never sets (\<open>self.parser\<close> is a \<open>RobotFileParser\<close> object and is
  true): the call raises \<open>AttributeError\<close> for every URL.
\<close>

definition robots_can_fetch :: "string \<Rightarrow> py_exn + bool" where
  "robots_can_fetch u =
     Inl (AttributeError (CHR 0x27 # ''RobotsTxtParser'' @ CHR 0x27 # '' object has no attribute ''
                          @ CHR 0x27 # ''user_agent'' @ [CHR 0x27]))"

text \<open>
  \<open>WebCrawler.crawl_page\<close>: the returned result and the crawler afterwards. The URL is
  marked visited before the \<open>try\<close> block. Inside it, a result of a fetch strategy (an
  object, hence true) is appended to \<open>self.results\<close> and folded into the global data;
  the \<open>except\<close> branch builds the error result and returns it.
\<close>

definition crawl_page ::
  "world \<Rightarrow> stdlib \<Rightarrow> CrawlConfig \<Rightarrow> crawler \<Rightarrow> string \<Rightarrow> int \<Rightarrow> CrawlResult option \<times> crawler" where
  "crawl_page W lib cfg s u d =
     (if u \<in> visited_urls s then (None, s)
      else
        (let s1 = s\<lparr>visited_urls := insert u (visited_urls s)\<rparr>
         in case (if respect_robots cfg \<and> \<not> override_robots cfg then robots_can_fetch u
                  else Inr True) of
              Inl e \<Rightarrow> (Some (error_result u d (time_time W s1) e), s1)
            | Inr False \<Rightarrow> (None, s1)
            | Inr True \<Rightarrow>
               (let s2 = s1\<lparr>fetch_log := fetch_log s1 @ [u]\<rparr>
                in case (if use_playwright cfg then crawl_with_playwright W lib cfg s1 u d
                         else crawl_with_requests W lib cfg s1 u d) of
                     Inl e \<Rightarrow> (Some (error_result u d (time_time W s1) e), s2)
                   | Inr r \<Rightarrow> (Some r, extract_global_data (s2\<lparr>results := results s2 @ [r]\<rparr>) r))))"

subsection \<open>The crawl loop (\<open>WebCrawler.crawl\<close>)\<close>

text \<open>
  The discovery passes that run before the loop when enabled: each appends the URLs it
  found, not yet visited, at depth 0. A pass that raises changes nothing.
\<close>

definition run_subdomain_enumeration :: "world \<Rightarrow> crawler \<Rightarrow> crawler" where
  "run_subdomain_enumeration W s =
     (case enumerate_subdomains W of
        Inl e \<Rightarrow> s
      | Inr subs \<Rightarrow>
          s\<lparr>subdomains := subs,
            url_queue := url_queue s
               @ map (\<lambda>u. (u, 0)) (filter (\<lambda>u. u \<notin> visited_urls s) (map (\<lambda>sd. ''https://'' @ sd) subs))\<rparr>)"

definition found_urls :: "crawler \<Rightarrow> (string \<times> bool) list \<Rightarrow> (string \<times> int) list" where
  "found_urls s rs = map (\<lambda>(u, found). (u, 0)) (filter (\<lambda>(u, found). found \<and> u \<notin> visited_urls s) rs)"

definition run_endpoint_guessing :: "world \<Rightarrow> crawler \<Rightarrow> crawler" where
  "run_endpoint_guessing W s =
     (case guess_endpoints W of
        Inl e \<Rightarrow> s
      | Inr rs \<Rightarrow> s\<lparr>guessed_endpoints := rs, url_queue := url_queue s @ found_urls s rs\<rparr>)"

definition run_hidden_file_scanning :: "world \<Rightarrow> crawler \<Rightarrow> crawler" where
  "run_hidden_file_scanning W s =
     (case scan_hidden_files W of
        Inl e \<Rightarrow> s
      | Inr rs \<Rightarrow> s\<lparr>hidden_files := rs, url_queue := url_queue s @ found_urls s rs\<rparr>)"

text \<open>The crawler when the \<open>while\<close> loop is entered.\<close>

definition crawl_start :: "world \<Rightarrow> CrawlConfig \<Rightarrow> crawler" where
  "crawl_start W cfg =
     (let s0 = init_crawler cfg;
          s1 = (if enable_subdomain_enumeration cfg then run_subdomain_enumeration W s0 else s0);
          s2 = (if enable_endpoint_guessing cfg then run_endpoint_guessing W s1 else s1)
      in if enable_hidden_file_scanning cfg then run_hidden_file_scanning W s2 else s2)"

text \<open>The condition of the \<open>while\<close> loop.\<close>

definition loop_cond :: "CrawlConfig \<Rightarrow> crawler \<Rightarrow> bool" where
  "loop_cond cfg s = (url_queue s \<noteq> [] \<and> int (length (results s)) < max_pages cfg)"

text \<open>\<open>result and not result.error\<close>: a result whose error is \<open>None\<close> or the empty string.\<close>

definition no_error :: "CrawlResult \<Rightarrow> bool" where
  "no_error r = (case error r of None \<Rightarrow> True | Some m \<Rightarrow> m = [])"

text \<open>One execution of the loop body (the queue is not empty when it runs).\<close>

definition crawl_iter :: "world \<Rightarrow> stdlib \<Rightarrow> CrawlConfig \<Rightarrow> crawler \<Rightarrow> crawler" where
  "crawl_iter W lib cfg s =
     (case url_queue s of
        [] \<Rightarrow> s
      | (u, d) # q \<Rightarrow>
          (let s1 = s\<lparr>url_queue := q\<rparr>
           in if d > max_depth cfg then s1
              else (case crawl_page W lib cfg s1 u d of
                      (None, s2) \<Rightarrow> s2
                    | (Some r, s2) \<Rightarrow>
                        if no_error r
                        then s2\<lparr>url_queue := url_queue s2
                                 @ map (\<lambda>l. (l, d + 1)) (filter (\<lambda>l. l \<notin> visited_urls s2) (links r))\<rparr>
                        else s2)))"

text \<open>
  The number of levels a task may still descend; the multiset of the weights of the
  queued tasks decreases with every turn of the loop.
\<close>

definition task_weight :: "CrawlConfig \<Rightarrow> string \<times> int \<Rightarrow> nat" where
  "task_weight cfg t = nat (max_depth cfg + 1 - snd t)"

lemma crawl_page_queue: "url_queue (snd (crawl_page W lib cfg s u d)) = url_queue s"
  by (auto simp: crawl_page_def Let_def extract_global_data_def split: sum.splits bool.splits)

lemma crawl_iter_queue:
  assumes "url_queue s = (u, d) # q"
  shows "\<exists>new. url_queue (crawl_iter W lib cfg s) = q @ map (\<lambda>l. (l, d + 1)) new
               \<and> (new \<noteq> [] \<longrightarrow> d \<le> max_depth cfg)"
proof (cases "d > max_depth cfg")
  case True
  then have "url_queue (crawl_iter W lib cfg s) = q @ map (\<lambda>l. (l, d + 1)) []"
    using assms by (simp add: crawl_iter_def)
  then show ?thesis by blast
next
  case False
  obtain res s2 where cp: "crawl_page W lib cfg (s\<lparr>url_queue := q\<rparr>) u d = (res, s2)"
    by (cases "crawl_page W lib cfg (s\<lparr>url_queue := q\<rparr>) u d")
  have q2: "url_queue s2 = q"
    using crawl_page_queue [of W lib cfg "s\<lparr>url_queue := q\<rparr>" u d] cp by simp
  show ?thesis
  proof (cases res)
    case None
    then have "url_queue (crawl_iter W lib cfg s) = q @ map (\<lambda>l. (l, d + 1)) []"
      using assms False cp q2 by (simp add: crawl_iter_def)
    then show ?thesis by blast
  next
    case (Some r)
    show ?thesis
    proof (cases "no_error r")
      case True
      then have "url_queue (crawl_iter W lib cfg s)
                 = q @ map (\<lambda>l. (l, d + 1)) (filter (\<lambda>l. l \<notin> visited_urls s2) (links r))"
        using assms False cp q2 Some by (simp add: crawl_iter_def)
      then show ?thesis using False by auto
    next
      case nerr: False
      then have "url_queue (crawl_iter W lib cfg s) = q @ map (\<lambda>l. (l, d + 1)) []"
        using assms False cp q2 Some by (simp add: crawl_iter_def)
      then show ?thesis by blast
    qed
  qed
qed

lemma crawl_iter_decreases:
  assumes "url_queue s \<noteq> []"
  shows "(mset (map (task_weight cfg) (url_queue (crawl_iter W lib cfg s))),
          mset (map (task_weight cfg) (url_queue s))) \<in> mult {(a, b). a < b}"
proof -
  obtain u d q where q: "url_queue s = (u, d) # q"
    using assms by (cases "url_queue s") auto
  obtain new where new: "url_queue (crawl_iter W lib cfg s) = q @ map (\<lambda>l. (l, d + 1)) new"
      and dep: "new \<noteq> [] \<longrightarrow> d \<le> max_depth cfg"
    using crawl_iter_queue [OF q] by blast
  let ?I = "mset (map (task_weight cfg) q)"
  let ?K = "mset (map (task_weight cfg) (map (\<lambda>l. (l, d + 1)) new))"
  let ?J = "{#task_weight cfg (u, d)#}"
  have small: "\<forall>k \<in> set_mset ?K. \<exists>j \<in> set_mset ?J. (k, j) \<in> {(a, b). a < b}"
    using dep by (auto simp: task_weight_def)
  have "(?I + ?K, ?I + ?J) \<in> mult {(a, b). a < b}"
    by (rule one_step_implies_mult) (use small in auto)
  then show ?thesis
    by (simp add: q new)
qed

text \<open>
  The \<open>while\<close> loop. It terminates: each turn removes the first task and appends only
  tasks one level deeper, and no task deeper than \<open>max_depth\<close> appends any.
\<close>

function crawl_loop :: "world \<Rightarrow> stdlib \<Rightarrow> CrawlConfig \<Rightarrow> crawler \<Rightarrow> crawler" where
  "crawl_loop W lib cfg s =
     (if loop_cond cfg s then crawl_loop W lib cfg (crawl_iter W lib cfg s) else s)"
  by pat_completeness auto
termination
proof (relation "inv_image (mult {(a, b). a < b})
                   (\<lambda>(W, lib, cfg, s). mset (map (task_weight cfg) (url_queue s)))")
  show "wf (inv_image (mult {(a, b). a < b})
             (\<lambda>(W :: world, lib :: stdlib, cfg, s). mset (map (task_weight cfg) (url_queue s))))"
    by (intro wf_inv_image wf_mult) (simp add: wf_less)
next
  fix W :: world and lib :: stdlib and cfg s
  assume "loop_cond cfg s"
  then have "url_queue s \<noteq> []" by (simp add: loop_cond_def)
  then show "((W, lib, cfg, crawl_iter W lib cfg s), (W, lib, cfg, s))
             \<in> inv_image (mult {(a, b). a < b})
                 (\<lambda>(W, lib, cfg, s). mset (map (task_weight cfg) (url_queue s)))"
    using crawl_iter_decreases by simp
qed

declare crawl_loop.simps [simp del]

text \<open>The part of \<open>_generate_report\<close> that reports the pages.\<close>

record report =
  total_pages_crawled :: nat
  crawl_depth_reached :: int
  detailed_results :: "CrawlResult list"

definition generate_report :: "crawler \<Rightarrow> report" where
  "generate_report s =
     \<lparr>total_pages_crawled = length (results s),
      crawl_depth_reached = (if results s \<noteq> [] then Max (set (map depth (results s))) else 0),
      detailed_results = results s\<rparr>"

text \<open>
  A run of a crawler created with the configuration \<open>cfg0\<close>: the crawler when the loop
  has ended, and the report.
\<close>

definition crawl_final :: "world \<Rightarrow> stdlib \<Rightarrow> CrawlConfig \<Rightarrow> crawler" where
  "crawl_final W lib cfg0 = crawl_loop W lib (init_config cfg0) (crawl_start W (init_config cfg0))"

definition crawl :: "world \<Rightarrow> stdlib \<Rightarrow> CrawlConfig \<Rightarrow> report" where
  "crawl W lib cfg0 = generate_report (crawl_final W lib cfg0)"

section \<open>Endpoint grouping: properties\<close>

lemma map_of_dict_append:
  "map_of (dict_append d k e) k' =
     (if k' = k then Some ((case map_of d k of None \<Rightarrow> [] | Some l \<Rightarrow> l) @ [e])
      else map_of d k')"
  by (induction d k e rule: dict_append.induct) auto

lemma map_of_foldl_dict_append:
  "map_of (foldl (\<lambda>g e. dict_append g (f e) e) d es) k =
     (let old = (case map_of d k of None \<Rightarrow> [] | Some l \<Rightarrow> l);
          new = filter (\<lambda>e. f e = k) es
      in if new = [] then map_of d k else Some (old @ new))"
proof (induction es arbitrary: d)
  case Nil
  show ?case by simp
next
  case (Cons e es)
  show ?case
    by (simp add: Cons.IH map_of_dict_append Let_def)
qed

lemma bucket_group_endpoints:
  "bucket (group_endpoints es) k = {e \<in> set es. endpoint_bucket e = k}"
proof -
  have "map_of (group_endpoints es) k =
        (if filter (\<lambda>e. endpoint_bucket e = k) es = [] then None
         else Some (filter (\<lambda>e. endpoint_bucket e = k) es))"
    unfolding group_endpoints_def
    by (simp add: map_of_foldl_dict_append Let_def)
  then show ?thesis
    by (auto simp: bucket_def filter_empty_conv)
qed

lemma spec_v_digit_code:
  "spec_v_digit e \<Longrightarrow> py_in ''/v'' e \<and> (\<exists>c \<in> set e. isdigit c)"
  by (induction e rule: spec_v_digit.induct) (auto simp: startswith_def)

text \<open>
  C8. Every endpoint of the input lies in exactly one bucket of the grouping, chosen by
  the first test that succeeds in the order api, rest, versioned, other, and an endpoint
  in which \<open>/v\<close> is immediately followed by a digit, with neither \<open>/api/\<close> nor \<open>/rest/\<close>
  in it, is in \<open>versioned\<close>. The converse fails: the test for \<open>versioned\<close> looks for
  \<open>/v\<close> and for a digit independently of each other, so \<open>/view/item1\<close>,
  \<open>/video/2024/intro\<close> and \<open>9/v\<close> are grouped as \<open>versioned\<close> with \<open>/v1/users\<close>,
  although no \<open>/v\<close> in them is followed by a digit.
\<close>

theorem versioned_overmatch:
  assumes "e \<in> set es"
  shows "(\<exists>!k. e \<in> bucket (group_endpoints es) k)
       \<and> (e \<in> bucket (group_endpoints es) ''api'' \<longleftrightarrow> py_in ''/api/'' e)
       \<and> (e \<in> bucket (group_endpoints es) ''rest'' \<longleftrightarrow>
            \<not> py_in ''/api/'' e \<and> py_in ''/rest/'' e)
       \<and> (e \<in> bucket (group_endpoints es) ''versioned'' \<longleftrightarrow>
            \<not> py_in ''/api/'' e \<and> \<not> py_in ''/rest/'' e
            \<and> py_in ''/v'' e \<and> (\<exists>c \<in> set e. isdigit c))
       \<and> (e \<in> bucket (group_endpoints es) ''other'' \<longleftrightarrow>
            \<not> py_in ''/api/'' e \<and> \<not> py_in ''/rest/'' e
            \<and> \<not> (py_in ''/v'' e \<and> (\<exists>c \<in> set e. isdigit c)))
       \<and> (spec_v_digit e \<and> \<not> py_in ''/api/'' e \<and> \<not> py_in ''/rest/'' e \<longrightarrow>
            e \<in> bucket (group_endpoints es) ''versioned'')
       \<and> group_endpoints [''/v1/users'', ''/view/item1'', ''/about'', ''/video/2024/intro'', ''9/v'']
           = [(''versioned'', [''/v1/users'', ''/view/item1'', ''/video/2024/intro'', ''9/v'']),
              (''other'', [''/about''])]
       \<and> map spec_v_digit [''/v1/users'', ''/view/item1'', ''/video/2024/intro'', ''9/v'']
           = [True, False, False, False]"
proof -
  have mem: "\<And>k. e \<in> bucket (group_endpoints es) k \<longleftrightarrow> endpoint_bucket e = k"
    using assms by (simp add: bucket_group_endpoints)
  have uniq: "\<exists>!k. e \<in> bucket (group_endpoints es) k"
    by (simp add: mem)
  have part: "(endpoint_bucket e = ''api'' \<longleftrightarrow> py_in ''/api/'' e)
       \<and> (endpoint_bucket e = ''rest'' \<longleftrightarrow> \<not> py_in ''/api/'' e \<and> py_in ''/rest/'' e)
       \<and> (endpoint_bucket e = ''versioned'' \<longleftrightarrow>
            \<not> py_in ''/api/'' e \<and> \<not> py_in ''/rest/'' e
            \<and> py_in ''/v'' e \<and> (\<exists>c \<in> set e. isdigit c))
       \<and> (endpoint_bucket e = ''other'' \<longleftrightarrow>
            \<not> py_in ''/api/'' e \<and> \<not> py_in ''/rest/'' e
            \<and> \<not> (py_in ''/v'' e \<and> (\<exists>c \<in> set e. isdigit c)))"
    by (auto simp: endpoint_bucket_def)
  have spec: "spec_v_digit e \<and> \<not> py_in ''/api/'' e \<and> \<not> py_in ''/rest/'' e \<longrightarrow>
            endpoint_bucket e = ''versioned''"
    using spec_v_digit_code [of e] by (auto simp: endpoint_bucket_def)
  have g: "group_endpoints [''/v1/users'', ''/view/item1'', ''/about'', ''/video/2024/intro'', ''9/v'']
           = [(''versioned'', [''/v1/users'', ''/view/item1'', ''/video/2024/intro'', ''9/v'']),
              (''other'', [''/about''])]"
    by (simp add: group_endpoints_def endpoint_bucket_def startswith_def isdigit_def)
  have s: "map spec_v_digit [''/v1/users'', ''/view/item1'', ''/video/2024/intro'', ''9/v'']
           = [True, False, False, False]"
    by (simp add: isdigit_def)
  show ?thesis
    unfolding mem using uniq part spec g s by simp
qed

theorem versioned_overmatch_witness:
  "''/v1/users'' \<in> set [''/v1/users'', ''/view/item1'']
   \<and> spec_v_digit ''/v1/users''
   \<and> ''/v1/users'' \<in> bucket (group_endpoints [''/v1/users'', ''/view/item1'']) ''versioned''
   \<and> ''/v1/users'' \<notin> bucket (group_endpoints [''/v1/users'', ''/view/item1'']) ''other''"
proof -
  have m: "''/v1/users'' \<in> set [''/v1/users'', ''/view/item1'']" by simp
  have s: "spec_v_digit ''/v1/users''" by (simp add: isdigit_def)
  show ?thesis
    using s versioned_overmatch [OF m]
    by (simp add: startswith_def isdigit_def)
qed

section \<open>The crawl loop: invariants\<close>

text \<open>
  \<open>loop_state W lib cfg n s\<close> is the crawler after \<open>n\<close> turns of the loop started in
  \<open>s\<close> (the crawler the loop ends with, once the condition is false). The loop ends in
  one of these states.
\<close>

definition crawl_step :: "world \<Rightarrow> stdlib \<Rightarrow> CrawlConfig \<Rightarrow> crawler \<Rightarrow> crawler" where
  "crawl_step W lib cfg s = (if loop_cond cfg s then crawl_iter W lib cfg s else s)"

definition loop_state :: "world \<Rightarrow> stdlib \<Rightarrow> CrawlConfig \<Rightarrow> nat \<Rightarrow> crawler \<Rightarrow> crawler" where
  "loop_state W lib cfg n s = (crawl_step W lib cfg ^^ n) s"

lemma crawl_loop_loop_state: "\<exists>n. crawl_loop W lib cfg s = loop_state W lib cfg n s"
proof (induction W lib cfg s rule: crawl_loop.induct)
  case (1 W lib cfg s)
  show ?case
  proof (cases "loop_cond cfg s")
    case True
    then obtain n where "crawl_loop W lib cfg (crawl_iter W lib cfg s)
                         = loop_state W lib cfg n (crawl_iter W lib cfg s)"
      using "1.IH" by blast
    moreover have "crawl_loop W lib cfg s = crawl_loop W lib cfg (crawl_iter W lib cfg s)"
      using True by (subst crawl_loop.simps) simp
    moreover have "loop_state W lib cfg (Suc n) s = loop_state W lib cfg n (crawl_iter W lib cfg s)"
      using True by (simp add: loop_state_def crawl_step_def funpow_swap1)
    ultimately have "crawl_loop W lib cfg s = loop_state W lib cfg (Suc n) s"
      by simp
    then show ?thesis by blast
  next
    case False
    then have "crawl_loop W lib cfg s = loop_state W lib cfg 0 s"
      by (subst crawl_loop.simps) (simp add: loop_state_def)
    then show ?thesis by blast
  qed
qed

lemma loop_state_invariant:
  assumes "P s" and "\<And>t. P t \<Longrightarrow> loop_cond cfg t \<Longrightarrow> P (crawl_iter W lib cfg t)"
  shows "P (loop_state W lib cfg n s)"
proof (induction n)
  case 0
  show ?case using assms(1) by (simp add: loop_state_def)
next
  case (Suc n)
  then show ?case
    using assms(2) by (simp add: loop_state_def crawl_step_def)
qed

lemma crawl_loop_invariant:
  assumes "P s" and "\<And>t. P t \<Longrightarrow> loop_cond cfg t \<Longrightarrow> P (crawl_iter W lib cfg t)"
  shows "P (crawl_loop W lib cfg s)"
  using crawl_loop_loop_state [of W lib cfg s] loop_state_invariant [OF assms] by metis

lemma crawl_loop_stops: "\<not> loop_cond cfg (crawl_loop W lib cfg s)"
proof (induction W lib cfg s rule: crawl_loop.induct)
  case (1 W lib cfg s)
  then show ?case
    by (subst crawl_loop.simps) simp
qed

text \<open>The effect of \<open>crawl_page\<close>, case by case.\<close>

lemma crawl_with_requests_result:
  "crawl_with_requests W lib cfg s u d = Inr r \<Longrightarrow> url r = u \<and> depth r = d \<and> error r = None"
  by (auto simp: crawl_with_requests_def split: sum.splits)

lemma crawl_with_playwright_result:
  "crawl_with_playwright W lib cfg s u d = Inr r \<Longrightarrow> url r = u \<and> depth r = d \<and> error r = None"
  by (auto simp: crawl_with_playwright_def split: sum.splits)

text \<open>The fetch strategy that the configuration selects.\<close>

definition fetch_page ::
  "world \<Rightarrow> stdlib \<Rightarrow> CrawlConfig \<Rightarrow> crawler \<Rightarrow> string \<Rightarrow> int \<Rightarrow> py_exn + CrawlResult" where
  "fetch_page W lib cfg s u d =
     (if use_playwright cfg then crawl_with_playwright W lib cfg s u d
      else crawl_with_requests W lib cfg s u d)"

lemma fetch_page_result:
  "fetch_page W lib cfg s u d = Inr r \<Longrightarrow> url r = u \<and> depth r = d \<and> error r = None"
  using crawl_with_requests_result crawl_with_playwright_result
  by (auto simp: fetch_page_def split: if_splits)

lemma crawl_page_visited:
  "u \<in> visited_urls s \<Longrightarrow> crawl_page W lib cfg s u d = (None, s)"
  by (simp add: crawl_page_def)

lemma crawl_page_robots:
  assumes "u \<notin> visited_urls s" "respect_robots cfg \<and> \<not> override_robots cfg"
  shows "crawl_page W lib cfg s u d =
           (Some (error_result u d (time_time W (s\<lparr>visited_urls := insert u (visited_urls s)\<rparr>))
                   (AttributeError (CHR 0x27 # ''RobotsTxtParser'' @ CHR 0x27 # '' object has no attribute ''
                          @ CHR 0x27 # ''user_agent'' @ [CHR 0x27]))),
            s\<lparr>visited_urls := insert u (visited_urls s)\<rparr>)"
  using assms by (simp add: crawl_page_def robots_can_fetch_def Let_def)

lemma crawl_page_fetch_error:
  assumes "u \<notin> visited_urls s" "\<not> (respect_robots cfg \<and> \<not> override_robots cfg)"
    and "fetch_page W lib cfg (s\<lparr>visited_urls := insert u (visited_urls s)\<rparr>) u d = Inl e"
  shows "crawl_page W lib cfg s u d =
           (Some (error_result u d (time_time W (s\<lparr>visited_urls := insert u (visited_urls s)\<rparr>)) e),
            s\<lparr>visited_urls := insert u (visited_urls s), fetch_log := fetch_log s @ [u]\<rparr>)"
  using assms by (auto simp: crawl_page_def Let_def fetch_page_def)

lemma crawl_page_fetch_ok:
  assumes "u \<notin> visited_urls s" "\<not> (respect_robots cfg \<and> \<not> override_robots cfg)"
    and "fetch_page W lib cfg (s\<lparr>visited_urls := insert u (visited_urls s)\<rparr>) u d = Inr r"
  shows "crawl_page W lib cfg s u d =
           (Some r,
            extract_global_data
              (s\<lparr>visited_urls := insert u (visited_urls s), fetch_log := fetch_log s @ [u],
                 results := results s @ [r]\<rparr>) r)"
  using assms by (auto simp: crawl_page_def Let_def fetch_page_def)


lemma crawl_page_effect:
  assumes "crawl_page W lib cfg s u d = (res, s')"
  shows "url_queue s' = url_queue s
       \<and> visited_urls s' = insert u (visited_urls s)
       \<and> (results s' = results s
            \<or> (\<exists>r. res = Some r \<and> results s' = results s @ [r] \<and> depth r = d \<and> url r = u
                    \<and> error r = None))
       \<and> (fetch_log s' = fetch_log s \<or> (fetch_log s' = fetch_log s @ [u] \<and> u \<notin> visited_urls s))"
proof (cases "u \<in> visited_urls s")
  case True
  then show ?thesis
    using assms by (auto simp: crawl_page_visited)
next
  case nv: False
  show ?thesis
  proof (cases "respect_robots cfg \<and> \<not> override_robots cfg")
    case True
    then show ?thesis
      using assms crawl_page_robots [OF nv True, of W lib d] by auto
  next
    case nr: False
    show ?thesis
    proof (cases "fetch_page W lib cfg (s\<lparr>visited_urls := insert u (visited_urls s)\<rparr>) u d")
      case (Inl e)
      then show ?thesis
        using assms nv crawl_page_fetch_error [OF nv nr Inl] by auto
    next
      case (Inr r)
      then show ?thesis
        using assms nv crawl_page_fetch_ok [OF nv nr Inr] fetch_page_result [OF Inr]
        by (auto simp: extract_global_data_def)
    qed
  qed
qed

lemma crawl_iter_deep:
  assumes "url_queue s = (u, d) # q" "d > max_depth cfg"
  shows "crawl_iter W lib cfg s = s\<lparr>url_queue := q\<rparr>"
  using assms by (simp add: crawl_iter_def)

lemma crawl_iter_effect:
  assumes "url_queue s = (u, d) # q"
  shows "visited_urls s \<subseteq> visited_urls (crawl_iter W lib cfg s)
       \<and> (results (crawl_iter W lib cfg s) = results s
            \<or> (\<exists>r. results (crawl_iter W lib cfg s) = results s @ [r] \<and> depth r = d
                    \<and> d \<le> max_depth cfg \<and> url r = u \<and> error r = None))
       \<and> (fetch_log (crawl_iter W lib cfg s) = fetch_log s
            \<or> (fetch_log (crawl_iter W lib cfg s) = fetch_log s @ [u] \<and> u \<notin> visited_urls s
                \<and> u \<in> visited_urls (crawl_iter W lib cfg s) \<and> d \<le> max_depth cfg))"
proof (cases "d > max_depth cfg")
  case True
  then show ?thesis
    using crawl_iter_deep [OF assms True] by simp
next
  case False
  obtain res s2 where cp: "crawl_page W lib cfg (s\<lparr>url_queue := q\<rparr>) u d = (res, s2)"
    by (cases "crawl_page W lib cfg (s\<lparr>url_queue := q\<rparr>) u d")
  have eff: "visited_urls s2 = insert u (visited_urls s)
       \<and> (results s2 = results s
            \<or> (\<exists>r. res = Some r \<and> results s2 = results s @ [r] \<and> depth r = d \<and> url r = u
                    \<and> error r = None))
       \<and> (fetch_log s2 = fetch_log s \<or> (fetch_log s2 = fetch_log s @ [u] \<and> u \<notin> visited_urls s))"
    using crawl_page_effect [OF cp] by simp
  have same: "visited_urls (crawl_iter W lib cfg s) = visited_urls s2
              \<and> results (crawl_iter W lib cfg s) = results s2
              \<and> fetch_log (crawl_iter W lib cfg s) = fetch_log s2"
    using assms False cp by (auto simp: crawl_iter_def split: option.splits)
  show ?thesis
    using eff False unfolding same [THEN conjunct1] same [THEN conjunct2, THEN conjunct1]
      same [THEN conjunct2, THEN conjunct2]
    by auto
qed

text \<open>The three invariants of the loop.\<close>

lemma budget_step:
  assumes "int (length (results s)) \<le> max_pages cfg" "loop_cond cfg s"
  shows "int (length (results (crawl_iter W lib cfg s))) \<le> max_pages cfg"
proof -
  obtain u d q where q: "url_queue s = (u, d) # q"
    using assms(2) by (cases "url_queue s") (auto simp: loop_cond_def)
  have "length (results (crawl_iter W lib cfg s)) \<le> Suc (length (results s))"
    using crawl_iter_effect [OF q, of W lib cfg] by auto
  then show ?thesis
    using assms(2) by (simp add: loop_cond_def)
qed

definition log_inv :: "crawler \<Rightarrow> bool" where
  "log_inv s = (distinct (fetch_log s) \<and> set (fetch_log s) \<subseteq> visited_urls s)"

lemma log_step:
  assumes "log_inv s" "loop_cond cfg s"
  shows "log_inv (crawl_iter W lib cfg s)"
proof -
  obtain u d q where q: "url_queue s = (u, d) # q"
    using assms(2) by (cases "url_queue s") (auto simp: loop_cond_def)
  show ?thesis
    using crawl_iter_effect [OF q, of W lib cfg] assms(1)
    by (auto simp: log_inv_def)
qed

definition depth_inv :: "CrawlConfig \<Rightarrow> crawler \<Rightarrow> bool" where
  "depth_inv cfg s = (\<forall>r \<in> set (results s). depth r \<le> max_depth cfg)"

lemma depth_step:
  assumes "depth_inv cfg s" "loop_cond cfg s"
  shows "depth_inv cfg (crawl_iter W lib cfg s)"
proof -
  obtain u d q where q: "url_queue s = (u, d) # q"
    using assms(2) by (cases "url_queue s") (auto simp: loop_cond_def)
  show ?thesis
    using crawl_iter_effect [OF q, of W lib cfg] assms(1)
    by (auto simp: depth_inv_def)
qed

lemma crawl_start_fresh:
  "results (crawl_start W cfg) = [] \<and> fetch_log (crawl_start W cfg) = []"
  by (simp add: crawl_start_def init_crawler_def Let_def run_subdomain_enumeration_def
        run_endpoint_guessing_def run_hidden_file_scanning_def split: sum.splits)


lemma crawl_report_results:
  "detailed_results (crawl W lib cfg) = results (crawl_final W lib cfg)
   \<and> total_pages_crawled (crawl W lib cfg) = length (results (crawl_final W lib cfg))"
  by (simp add: crawl_def generate_report_def)

lemma init_config_fields:
  "max_depth (init_config cfg) = max_depth cfg \<and> max_pages (init_config cfg) = max_pages cfg
   \<and> base_url (init_config cfg) = base_url cfg"
  by (simp add: init_config_def)

section \<open>A small site\<close>

text \<open>
  A concrete site, configuration and run, on which the definitions are evaluated.
  \<open>no_host_checks\<close> is a library whose two host checks accept every host.
\<close>

lemmas urlparse_eval =
  urlparse_def urlsplit_def Let_def c0_control_or_space_def unsafe_url_byte_def
  isascii_def ascii_lowercase_def ascii_uppercase_def scheme_chars_def py_lower_def
  py_lower_char_def latin1_uppercase_def latin1_lowercase_def splitnetloc2_def
  netloc_delim_def split1_def checknetloc_def uses_params_def

lemmas query_eval =
  parse_qs_def parse_qsl_def unquote_plus_def unquote_def py_replace_def split1_def
  urlencode_def quote_plus_def quote_def quoter_def utf8_encode_cp_def always_safe_def
  hex_upper_def Let_def

definition no_host_checks :: stdlib where
  "no_host_checks = \<lparr>check_bracketed_host = (\<lambda>h. None), check_nfkc = (\<lambda>h. None)\<rparr>"

definition blank_page :: page where
  "blank_page =
     \<lparr>page_status = 200, page_content_type = ''text/html'', page_title = [], page_forms = [],
      page_anchors = [], page_api_endpoints = [], page_scripts = [], page_cookies = [],
      page_headers = [], page_hidden_fields = [], page_csrf_tokens = []\<rparr>"

definition home_anchors :: "(py_exn + string) list" where
  "home_anchors = [Inr ''http://h/a.html'', Inr ''http://h/b.html'']"

definition site_fetch :: "crawler \<Rightarrow> string \<Rightarrow> py_exn + page" where
  "site_fetch s u =
     (if u = ''http://h/''
      then Inr (blank_page\<lparr>page_anchors := home_anchors\<rparr>)
      else if u = ''http://h/a.html'' then Inl (Raised ''timeout'')
      else Inr blank_page)"

definition site :: world where
  "site = \<lparr>http_get = site_fetch, page_goto = site_fetch, time_time = (\<lambda>s. 0),
           enumerate_subdomains = Inr [], guess_endpoints = Inr [], scan_hidden_files = Inr []\<rparr>"

definition site_config :: CrawlConfig where
  "site_config = (default_config ''http://h/'')\<lparr>override_robots := True, use_playwright := False,
                                              max_pages := 2\<rparr>"

lemma urlparse_h:
  "urlparse lib ''http://h/'' =
     Inr \<lparr>scheme = ''http'', netloc = ''h'', path = ''/'', query = [], fragment = [], params = []\<rparr>"
  by (simp add: urlparse_eval)

lemma urlparse_a:
  "urlparse lib ''http://h/a.html'' =
     Inr \<lparr>scheme = ''http'', netloc = ''h'', path = ''/a.html'', query = [], fragment = [], params = []\<rparr>"
  by (simp add: urlparse_eval)

lemma urlparse_b:
  "urlparse lib ''http://h/b.html'' =
     Inr \<lparr>scheme = ''http'', netloc = ''h'', path = ''/b.html'', query = [], fragment = [], params = []\<rparr>"
  by (simp add: urlparse_eval)

lemma site_links:
  "extract_links lib (init_config site_config) home_anchors
     = Inr [''http://h/a.html'', ''http://h/b.html'']"
  by (simp add: home_anchors_def is_valid_url_def is_valid_url_try_def urlparse_h urlparse_a urlparse_b
        site_config_def default_config_def init_config_def truthy_set_def any_endswith_def
        default_ignored_extensions_def default_focused_extensions_def endswith_def
        py_lower_def py_lower_char_def ascii_lowercase_def ascii_uppercase_def
        latin1_uppercase_def latin1_lowercase_def crawler_normalize_url_def)



lemma site_config_fields:
  "base_url (init_config site_config) = ''http://h/''"
  "max_depth (init_config site_config) = 5"
  "max_pages (init_config site_config) = 2"
  "respect_robots (init_config site_config) = True"
  "override_robots (init_config site_config) = True"
  "use_playwright (init_config site_config) = False"
  "enable_subdomain_enumeration (init_config site_config) = False"
  "enable_endpoint_guessing (init_config site_config) = False"
  "enable_hidden_file_scanning (init_config site_config) = False"
  by (simp_all add: site_config_def default_config_def init_config_def)

definition site_state ::
  "string set \<Rightarrow> (string \<times> int) list \<Rightarrow> CrawlResult list \<Rightarrow> string list \<Rightarrow> crawler" where
  "site_state vis q rs lg =
     \<lparr>visited_urls = vis, url_queue = q, results = rs, self_forms = [],
      self_api_endpoints = {}, self_js_files = {}, self_cookies = [], self_headers = [],
      subdomains = [], guessed_endpoints = [], hidden_files = [], fetch_log = lg\<rparr>"

definition site_result :: "string \<Rightarrow> string list \<Rightarrow> int \<Rightarrow> CrawlResult" where
  "site_result u ls d =
     \<lparr>url = u, status_code = 200, content_type = ''text/html'', title = [], forms = [],
      links = ls, api_endpoints = [], js_files = [], cookies = [], headers = [],
      hidden_fields = [], csrf_tokens = [], depth = d, timestamp = 0, error = None\<rparr>"

lemma site_start:
  "crawl_start site (init_config site_config) = site_state {} [(''http://h/'', 0)] [] []"
  by (simp add: crawl_start_def site_config_fields init_crawler_def Let_def site_state_def)

lemma site_page_home:
  "crawl_with_requests site lib (init_config site_config) s ''http://h/'' d =
     Inr (site_result ''http://h/'' [''http://h/a.html'', ''http://h/b.html''] d)"
  by (simp add: crawl_with_requests_def site_def site_fetch_def blank_page_def site_links
        site_result_def)

lemma site_page_a:
  "crawl_with_requests site lib (init_config site_config) s ''http://h/a.html'' d =
     Inl (Raised ''timeout'')"
  by (simp add: crawl_with_requests_def site_def site_fetch_def)

lemma site_page_b:
  "crawl_with_requests site lib (init_config site_config) s ''http://h/b.html'' d =
     Inr (site_result ''http://h/b.html'' [] d)"
  by (simp add: crawl_with_requests_def site_def site_fetch_def blank_page_def site_result_def)

lemma site_iter1:
  "crawl_iter site lib (init_config site_config) (site_state {} [(''http://h/'', 0)] [] []) =
     site_state {''http://h/''} [(''http://h/a.html'', 1), (''http://h/b.html'', 1)]
       [site_result ''http://h/'' [''http://h/a.html'', ''http://h/b.html''] 0] [''http://h/'']"
  by (simp add: crawl_iter_def crawl_page_def Let_def site_config_fields site_page_home
        site_state_def extract_global_data_def dict_update_def no_error_def)
     (simp add: site_result_def)


lemma site_iter2:
  "crawl_iter site lib (init_config site_config)
     (site_state {''http://h/''} [(''http://h/a.html'', 1), (''http://h/b.html'', 1)]
        [site_result ''http://h/'' [''http://h/a.html'', ''http://h/b.html''] 0] [''http://h/'']) =
     site_state {''http://h/a.html'', ''http://h/''} [(''http://h/b.html'', 1)]
        [site_result ''http://h/'' [''http://h/a.html'', ''http://h/b.html''] 0]
        [''http://h/'', ''http://h/a.html'']"
  by (simp add: crawl_iter_def crawl_page_def Let_def site_config_fields site_page_a
        site_state_def no_error_def error_result_def)

lemma site_iter3:
  "crawl_iter site lib (init_config site_config)
     (site_state {''http://h/a.html'', ''http://h/''} [(''http://h/b.html'', 1)]
        [site_result ''http://h/'' [''http://h/a.html'', ''http://h/b.html''] 0]
        [''http://h/'', ''http://h/a.html'']) =
     site_state {''http://h/b.html'', ''http://h/a.html'', ''http://h/''} []
        [site_result ''http://h/'' [''http://h/a.html'', ''http://h/b.html''] 0,
         site_result ''http://h/b.html'' [] 1]
        [''http://h/'', ''http://h/a.html'', ''http://h/b.html'']"
  by (simp add: crawl_iter_def crawl_page_def Let_def site_config_fields site_page_b
        site_state_def extract_global_data_def dict_update_def no_error_def)
     (simp add: site_result_def)

lemma site_cond:
  "loop_cond (init_config site_config) (site_state vis q rs lg) \<longleftrightarrow> q \<noteq> [] \<and> length rs < 2"
  by (auto simp: loop_cond_def site_config_fields site_state_def)

lemma site_final:
  "crawl_final site lib site_config =
     site_state {''http://h/b.html'', ''http://h/a.html'', ''http://h/''} []
        [site_result ''http://h/'' [''http://h/a.html'', ''http://h/b.html''] 0,
         site_result ''http://h/b.html'' [] 1]
        [''http://h/'', ''http://h/a.html'', ''http://h/b.html'']"
  unfolding crawl_final_def site_start
  apply (subst crawl_loop.simps, simp only: site_cond, simp add: site_iter1)
  apply (subst crawl_loop.simps, simp only: site_cond, simp add: site_iter2)
  apply (subst crawl_loop.simps, simp only: site_cond, simp add: site_iter3)
  apply (subst crawl_loop.simps, simp only: site_cond, simp)
  done


subsection \<open>A page with a link to its own top\<close>

text \<open>
  The crawl starts at \<open>http://h/a.html#top\<close>; every page served carries the anchor
  \<open>href="#top"\<close>, which \<open>urljoin\<close> resolves against the base URL to
  \<open>http://h/a.html#top\<close>.
\<close>

definition top_anchors :: "(py_exn + string) list" where
  "top_anchors = [Inr ''http://h/a.html#top'']"

definition top_fetch :: "crawler \<Rightarrow> string \<Rightarrow> py_exn + page" where
  "top_fetch s u = Inr (blank_page\<lparr>page_anchors := top_anchors\<rparr>)"

definition top_site :: world where
  "top_site = \<lparr>http_get = top_fetch, page_goto = top_fetch, time_time = (\<lambda>s. 0),
               enumerate_subdomains = Inr [], guess_endpoints = Inr [], scan_hidden_files = Inr []\<rparr>"

definition top_config :: CrawlConfig where
  "top_config = (default_config ''http://h/a.html#top'')\<lparr>override_robots := True, use_playwright := False\<rparr>"

lemma urlparse_top:
  "urlparse lib ''http://h/a.html#top'' =
     Inr \<lparr>scheme = ''http'', netloc = ''h'', path = ''/a.html'', query = [], fragment = ''top'', params = []\<rparr>"
  by (simp add: urlparse_eval)

lemma top_config_fields:
  "base_url (init_config top_config) = ''http://h/a.html#top''"
  "max_depth (init_config top_config) = 5"
  "max_pages (init_config top_config) = 1000"
  "respect_robots (init_config top_config) = True"
  "override_robots (init_config top_config) = True"
  "use_playwright (init_config top_config) = False"
  "enable_subdomain_enumeration (init_config top_config) = False"
  "enable_endpoint_guessing (init_config top_config) = False"
  "enable_hidden_file_scanning (init_config top_config) = False"
  by (simp_all add: top_config_def default_config_def init_config_def)

lemma top_links:
  "extract_links lib (init_config top_config) top_anchors = Inr [''http://h/a.html'']"
  by (simp add: top_anchors_def is_valid_url_def is_valid_url_try_def urlparse_top
        top_config_def default_config_def init_config_def truthy_set_def any_endswith_def
        default_ignored_extensions_def default_focused_extensions_def endswith_def
        py_lower_def py_lower_char_def ascii_lowercase_def ascii_uppercase_def
        latin1_uppercase_def latin1_lowercase_def crawler_normalize_url_def)

lemma top_start:
  "crawl_start top_site (init_config top_config) = site_state {} [(''http://h/a.html#top'', 0)] [] []"
  by (simp add: crawl_start_def top_config_fields init_crawler_def Let_def site_state_def)

lemma top_page:
  "crawl_with_requests top_site lib (init_config top_config) s u d =
     Inr (site_result u [''http://h/a.html''] d)"
  by (simp add: crawl_with_requests_def top_site_def top_fetch_def blank_page_def top_links
        site_result_def)

lemma top_iter1:
  "crawl_iter top_site lib (init_config top_config)
     (site_state {} [(''http://h/a.html#top'', 0)] [] []) =
     site_state {''http://h/a.html#top''} [(''http://h/a.html'', 1)]
       [site_result ''http://h/a.html#top'' [''http://h/a.html''] 0] [''http://h/a.html#top'']"
  by (simp add: crawl_iter_def crawl_page_def Let_def top_config_fields top_page
        site_state_def extract_global_data_def dict_update_def no_error_def)
     (simp add: site_result_def)

lemma top_iter2:
  "crawl_iter top_site lib (init_config top_config)
     (site_state {''http://h/a.html#top''} [(''http://h/a.html'', 1)]
       [site_result ''http://h/a.html#top'' [''http://h/a.html''] 0] [''http://h/a.html#top'']) =
     site_state {''http://h/a.html'', ''http://h/a.html#top''} []
       [site_result ''http://h/a.html#top'' [''http://h/a.html''] 0,
        site_result ''http://h/a.html'' [''http://h/a.html''] 1]
       [''http://h/a.html#top'', ''http://h/a.html'']"
  by (simp add: crawl_iter_def crawl_page_def Let_def top_config_fields top_page
        site_state_def extract_global_data_def dict_update_def no_error_def)
     (simp add: site_result_def)

lemma top_cond:
  "loop_cond (init_config top_config) (site_state vis q rs lg) \<longleftrightarrow> q \<noteq> [] \<and> length rs < 1000"
  by (auto simp: loop_cond_def top_config_fields site_state_def)

lemma top_final:
  "crawl_final top_site lib top_config =
     site_state {''http://h/a.html'', ''http://h/a.html#top''} []
       [site_result ''http://h/a.html#top'' [''http://h/a.html''] 0,
        site_result ''http://h/a.html'' [''http://h/a.html''] 1]
       [''http://h/a.html#top'', ''http://h/a.html'']"
  unfolding crawl_final_def top_start
  apply (subst crawl_loop.simps, simp only: top_cond, simp add: top_iter1)
  apply (subst crawl_loop.simps, simp only: top_cond, simp add: top_iter2)
  apply (subst crawl_loop.simps, simp only: top_cond, simp)
  done

subsection \<open>Properties of the crawl loop\<close>

lemma crawl_iter_enqueue:
  assumes "url_queue s = (u, d) # q" "d \<le> max_depth cfg"
    and "crawl_page W lib cfg (s\<lparr>url_queue := q\<rparr>) u d = (Some r, s2)" "no_error r"
  shows "url_queue (crawl_iter W lib cfg s)
         = q @ map (\<lambda>l. (l, d + 1)) (filter (\<lambda>l. l \<notin> visited_urls s2) (links r))"
proof -
  have "url_queue s2 = q"
    using crawl_page_queue [of W lib cfg "s\<lparr>url_queue := q\<rparr>" u d] assms(3) by simp
  then show ?thesis
    using assms by (simp add: crawl_iter_def)
qed

text \<open>
  C4. With a page budget \<open>max_pages \<ge> 0\<close>, after any number of turns of the crawl loop, and
  in the report, the number of collected results is at most \<open>max_pages\<close>, whatever pages
  and links the site serves. (For a negative \<open>max_pages\<close> the loop body never runs and the
  results stay empty.)
\<close>

theorem page_budget:
  assumes "0 \<le> max_pages cfg"
  shows "int (length (results (loop_state W lib (init_config cfg) n (crawl_start W (init_config cfg)))))
           \<le> max_pages cfg
       \<and> int (total_pages_crawled (crawl W lib cfg)) \<le> max_pages cfg
       \<and> int (length (detailed_results (crawl W lib cfg))) \<le> max_pages cfg"
proof -
  let ?c = "init_config cfg"
  let ?P = "\<lambda>s. int (length (results s)) \<le> max_pages ?c"
  have start: "?P (crawl_start W ?c)"
    using assms by (simp add: crawl_start_fresh init_config_fields)
  have step: "\<And>t. ?P t \<Longrightarrow> loop_cond ?c t \<Longrightarrow> ?P (crawl_iter W lib ?c t)"
    by (rule budget_step)
  have "?P (loop_state W lib ?c n (crawl_start W ?c))"
    using start step by (rule loop_state_invariant)
  moreover have "?P (crawl_loop W lib ?c (crawl_start W ?c))"
    using start step by (rule crawl_loop_invariant)
  ultimately show ?thesis
    by (simp add: crawl_report_results crawl_final_def init_config_fields)
qed

theorem page_budget_witness:
  "0 \<le> max_pages site_config
   \<and> total_pages_crawled (crawl site no_host_checks site_config) = 2
   \<and> int (total_pages_crawled (crawl site no_host_checks site_config)) \<le> max_pages site_config"
proof -
  have h: "0 \<le> max_pages site_config"
    by (simp add: site_config_def default_config_def)
  have "total_pages_crawled (crawl site no_host_checks site_config) = 2"
    by (simp add: crawl_report_results site_final site_state_def)
  then show ?thesis
    using h page_budget [OF h, of site no_host_checks 0] by simp
qed

text \<open>
  C5. The visited set holds URL strings. Whatever tasks the queue holds when the loop
  starts and whatever links the pages serve, no string is handed to a fetch strategy
  twice: the log of fetched URLs has no repetition after any number of turns and at the
  end of the run. \<open>crawl_page\<close> returns at once, fetching nothing and changing nothing, for
  a URL already in the visited set; otherwise it adds the URL to the visited set and only
  then fetches (the fetch sees the crawler with the URL already visited).

  The same normalized URL can still be fetched twice. Links are normalized before they
  are queued, the base URL is queued as given. Started at \<open>http://h/a.html#top\<close>, on a
  page with a link to its own top, the crawler fetches \<open>http://h/a.html#top\<close> and then
  \<open>http://h/a.html\<close>, the normal form of both, and reports two results for the one page.
\<close>

theorem seed_fetched_twice:
  "distinct (fetch_log (loop_state W lib cfg n ((init_crawler cfg)\<lparr>url_queue := q\<rparr>)))
   \<and> distinct (fetch_log (crawl_final W lib cfg))
   \<and> (u \<in> visited_urls s \<longrightarrow> crawl_page W lib cfg s u d = (None, s))
   \<and> (u \<notin> visited_urls s \<longrightarrow> u \<in> visited_urls (snd (crawl_page W lib cfg s u d)))
   \<and> (fetch_log (snd (crawl_page W lib cfg s u d)) \<noteq> fetch_log s \<longrightarrow>
        u \<notin> visited_urls s \<and> fetch_log (snd (crawl_page W lib cfg s u d)) = fetch_log s @ [u])
   \<and> (u \<notin> visited_urls s \<and> \<not> (respect_robots cfg \<and> \<not> override_robots cfg) \<longrightarrow>
        fst (crawl_page W lib cfg s u d) =
          (case fetch_page W lib cfg (s\<lparr>visited_urls := insert u (visited_urls s)\<rparr>) u d of
             Inl e \<Rightarrow> Some (error_result u d (time_time W (s\<lparr>visited_urls := insert u (visited_urls s)\<rparr>)) e)
           | Inr r \<Rightarrow> Some r))
   \<and> fetch_log (crawl_final top_site no_host_checks top_config)
       = [''http://h/a.html#top'', ''http://h/a.html'']
   \<and> map (crawler_normalize_url no_host_checks)
          (fetch_log (crawl_final top_site no_host_checks top_config))
       = [Inr ''http://h/a.html'', Inr ''http://h/a.html'']
   \<and> \<not> distinct (map (crawler_normalize_url no_host_checks)
                      (fetch_log (crawl_final top_site no_host_checks top_config)))
   \<and> map url (detailed_results (crawl top_site no_host_checks top_config))
       = [''http://h/a.html#top'', ''http://h/a.html'']"
proof -
  have step: "\<And>c t. log_inv t \<Longrightarrow> loop_cond c t \<Longrightarrow> log_inv (crawl_iter W lib c t)"
    by (rule log_step)
  have "log_inv ((init_crawler cfg)\<lparr>url_queue := q\<rparr>)"
    by (simp add: log_inv_def init_crawler_def)
  then have a: "log_inv (loop_state W lib cfg n ((init_crawler cfg)\<lparr>url_queue := q\<rparr>))"
    using step by (rule loop_state_invariant)
  have "log_inv (crawl_start W (init_config cfg))"
    by (simp add: log_inv_def crawl_start_fresh)
  then have "log_inv (crawl_loop W lib (init_config cfg) (crawl_start W (init_config cfg)))"
    using step by (rule crawl_loop_invariant)
  then have b: "distinct (fetch_log (crawl_final W lib cfg))"
    by (simp add: log_inv_def crawl_final_def)
  obtain res s' where cp: "crawl_page W lib cfg s u d = (res, s')"
    by (cases "crawl_page W lib cfg s u d")
  have c: "u \<in> visited_urls s \<longrightarrow> crawl_page W lib cfg s u d = (None, s)"
    by (simp add: crawl_page_visited)
  have d: "u \<notin> visited_urls s \<longrightarrow> u \<in> visited_urls (snd (crawl_page W lib cfg s u d))"
    using crawl_page_effect [OF cp] cp by simp
  have e: "fetch_log (snd (crawl_page W lib cfg s u d)) \<noteq> fetch_log s \<longrightarrow>
        u \<notin> visited_urls s \<and> fetch_log (snd (crawl_page W lib cfg s u d)) = fetch_log s @ [u]"
    using crawl_page_effect [OF cp] cp by auto
  have f: "u \<notin> visited_urls s \<and> \<not> (respect_robots cfg \<and> \<not> override_robots cfg) \<longrightarrow>
        fst (crawl_page W lib cfg s u d) =
          (case fetch_page W lib cfg (s\<lparr>visited_urls := insert u (visited_urls s)\<rparr>) u d of
             Inl e \<Rightarrow> Some (error_result u d (time_time W (s\<lparr>visited_urls := insert u (visited_urls s)\<rparr>)) e)
           | Inr r \<Rightarrow> Some r)"
    using crawl_page_fetch_error [of u s cfg W lib d] crawl_page_fetch_ok [of u s cfg W lib d]
    by (auto split: sum.splits)
  have n: "map (crawler_normalize_url no_host_checks) [''http://h/a.html#top'', ''http://h/a.html'']
           = [Inr ''http://h/a.html'', Inr ''http://h/a.html'']"
    by (simp add: crawler_normalize_url_def urlparse_top urlparse_a)
  have l: "fetch_log (crawl_final top_site no_host_checks top_config)
     = [''http://h/a.html#top'', ''http://h/a.html'']"
    by (simp add: top_final site_state_def)
  have r: "map url (detailed_results (crawl top_site no_host_checks top_config))
     = [''http://h/a.html#top'', ''http://h/a.html'']"
    by (simp add: crawl_report_results top_final site_state_def site_result_def)
  have g: "distinct (fetch_log (loop_state W lib cfg n ((init_crawler cfg)\<lparr>url_queue := q\<rparr>)))"
    using a by (simp add: log_inv_def)
  show ?thesis
    unfolding l n using g b c d e f r by simp
qed

theorem seed_fetched_twice_witness:
  "fetch_log (crawl_final site no_host_checks site_config)
     = [''http://h/'', ''http://h/a.html'', ''http://h/b.html'']
   \<and> distinct (fetch_log (crawl_final site no_host_checks site_config))
   \<and> ''http://h/'' \<in> visited_urls (site_state {''http://h/''} [] [] [])
   \<and> crawl_page site no_host_checks site_config
        (site_state {''http://h/''} [] [] []) ''http://h/'' 0
      = (None, site_state {''http://h/''} [] [] [])"
proof -
  have v: "''http://h/'' \<in> visited_urls (site_state {''http://h/''} [] [] [])"
    by (simp add: site_state_def)
  have "fetch_log (crawl_final site no_host_checks site_config)
     = [''http://h/'', ''http://h/a.html'', ''http://h/b.html'']"
    by (simp add: site_final site_state_def)
  then show ?thesis
    using v seed_fetched_twice [of site no_host_checks site_config 0 "[]" "''http://h/''"
        "site_state {''http://h/''} [] [] []" 0]
    by simp
qed

text \<open>
  C6. After any number of turns of the crawl loop, and in the report, no result has a
  depth above \<open>max_depth\<close>. A dequeued task deeper than \<open>max_depth\<close> is dropped with no
  other change to the crawler (nothing is fetched), and the tasks a turn appends to the
  queue are the unvisited links of the page just crawled, at the depth of that page plus
  one.
\<close>

theorem depth_bound:
  "(\<forall>r \<in> set (results (loop_state W lib (init_config cfg) n (crawl_start W (init_config cfg)))).
       depth r \<le> max_depth cfg)
   \<and> (\<forall>r \<in> set (detailed_results (crawl W lib cfg)). depth r \<le> max_depth cfg)
   \<and> (url_queue s = (u, d) # q \<and> d > max_depth c \<longrightarrow> crawl_iter W lib c s = s\<lparr>url_queue := q\<rparr>)
   \<and> (url_queue s = (u, d) # q \<longrightarrow>
        (\<exists>new. url_queue (crawl_iter W lib c s) = q @ map (\<lambda>l. (l, d + 1)) new))
   \<and> (url_queue s = (u, d) # q \<and> d \<le> max_depth c
        \<and> crawl_page W lib c (s\<lparr>url_queue := q\<rparr>) u d = (Some r, s2) \<and> no_error r \<longrightarrow>
        url_queue (crawl_iter W lib c s)
          = q @ map (\<lambda>l. (l, d + 1)) (filter (\<lambda>l. l \<notin> visited_urls s2) (links r)))"
proof -
  let ?c = "init_config cfg"
  have step: "\<And>t. depth_inv ?c t \<Longrightarrow> loop_cond ?c t \<Longrightarrow> depth_inv ?c (crawl_iter W lib ?c t)"
    by (rule depth_step)
  have start: "depth_inv ?c (crawl_start W ?c)"
    by (simp add: depth_inv_def crawl_start_fresh)
  have "depth_inv ?c (loop_state W lib ?c n (crawl_start W ?c))"
    using start step by (rule loop_state_invariant)
  then have a: "\<forall>r \<in> set (results (loop_state W lib ?c n (crawl_start W ?c))). depth r \<le> max_depth cfg"
    by (simp add: depth_inv_def init_config_fields)
  have "depth_inv ?c (crawl_loop W lib ?c (crawl_start W ?c))"
    using start step by (rule crawl_loop_invariant)
  then have b: "\<forall>r \<in> set (detailed_results (crawl W lib cfg)). depth r \<le> max_depth cfg"
    by (simp add: depth_inv_def init_config_fields crawl_report_results crawl_final_def)
  have c: "url_queue s = (u, d) # q \<and> d > max_depth c \<longrightarrow> crawl_iter W lib c s = s\<lparr>url_queue := q\<rparr>"
    using crawl_iter_deep by blast
  have d: "url_queue s = (u, d) # q \<longrightarrow>
        (\<exists>new. url_queue (crawl_iter W lib c s) = q @ map (\<lambda>l. (l, d + 1)) new)"
    using crawl_iter_queue by blast
  have e: "url_queue s = (u, d) # q \<and> d \<le> max_depth c
        \<and> crawl_page W lib c (s\<lparr>url_queue := q\<rparr>) u d = (Some r, s2) \<and> no_error r \<longrightarrow>
        url_queue (crawl_iter W lib c s)
          = q @ map (\<lambda>l. (l, d + 1)) (filter (\<lambda>l. l \<notin> visited_urls s2) (links r))"
    using crawl_iter_enqueue by blast
  show ?thesis
    using a b c d e by blast
qed

theorem depth_bound_witness:
  "map depth (detailed_results (crawl site no_host_checks site_config)) = [0, 1]
   \<and> max_depth site_config = 5
   \<and> crawl_iter site no_host_checks site_config (site_state {} [(''http://h/deep.html'', 6)] [] [])
      = site_state {} [] [] []"
proof -
  have q: "url_queue (site_state {} [(''http://h/deep.html'', 6)] [] []) = (''http://h/deep.html'', 6) # []"
    by (simp add: site_state_def)
  have m: "max_depth site_config = 5"
    by (simp add: site_config_def default_config_def)
  have r: "map depth (detailed_results (crawl site no_host_checks site_config)) = [0, 1]"
    by (simp add: crawl_report_results site_final site_state_def site_result_def)
  have "crawl_iter site no_host_checks site_config (site_state {} [(''http://h/deep.html'', 6)] [] [])
        = (site_state {} [(''http://h/deep.html'', 6)] [] [])\<lparr>url_queue := []\<rparr>"
    using q m depth_bound [of site no_host_checks site_config 0
        "site_state {} [(''http://h/deep.html'', 6)] [] []" "''http://h/deep.html''" 6 "[]" site_config]
    by simp
  then show ?thesis
    using m r by (simp add: site_state_def)
qed

text \<open>
  C1. On the small site, the fetch of \<open>/a.html\<close> times out. \<open>crawl_page\<close> builds and returns
  the result carrying the error, with empty lists, and the run goes on to \<open>/b.html\<close>; but
  the error result is not among the results of the report, and it does not count towards
  \<open>max_pages = 2\<close>: three pages are fetched and two results are reported.
\<close>

theorem error_result_dropped:
  "crawl_page site no_host_checks (init_config site_config)
      (site_state {''http://h/''} [(''http://h/b.html'', 1)]
         [site_result ''http://h/'' [''http://h/a.html'', ''http://h/b.html''] 0] [''http://h/''])
      ''http://h/a.html'' 1
    = (Some (error_result ''http://h/a.html'' 1 0 (Raised ''timeout'')),
       site_state {''http://h/a.html'', ''http://h/''} [(''http://h/b.html'', 1)]
         [site_result ''http://h/'' [''http://h/a.html'', ''http://h/b.html''] 0]
         [''http://h/'', ''http://h/a.html''])
   \<and> max_pages site_config = 2
   \<and> fetch_log (crawl_final site no_host_checks site_config)
       = [''http://h/'', ''http://h/a.html'', ''http://h/b.html'']
   \<and> total_pages_crawled (crawl site no_host_checks site_config) = 2
   \<and> map url (detailed_results (crawl site no_host_checks site_config))
       = [''http://h/'', ''http://h/b.html'']
   \<and> map error (detailed_results (crawl site no_host_checks site_config)) = [None, None]"
proof -
  have "crawl_page site no_host_checks (init_config site_config)
      (site_state {''http://h/''} [(''http://h/b.html'', 1)]
         [site_result ''http://h/'' [''http://h/a.html'', ''http://h/b.html''] 0] [''http://h/''])
      ''http://h/a.html'' 1
    = (Some (error_result ''http://h/a.html'' 1 0 (Raised ''timeout'')),
       site_state {''http://h/a.html'', ''http://h/''} [(''http://h/b.html'', 1)]
         [site_result ''http://h/'' [''http://h/a.html'', ''http://h/b.html''] 0]
         [''http://h/'', ''http://h/a.html''])"
    by (simp add: crawl_page_def Let_def site_config_fields site_page_a site_state_def)
       (simp add: site_def)
  moreover have "max_pages site_config = 2"
    by (simp add: site_config_def default_config_def)
  ultimately show ?thesis
    by (simp add: crawl_report_results site_final site_state_def site_result_def)
qed

section \<open>URL normalisation: properties\<close>

lemma urlparse_ba:
  "urlparse lib ''http://h/p?b=2&a=1'' =
     Inr \<lparr>scheme = ''http'', netloc = ''h'', path = ''/p'', query = ''b=2&a=1'', fragment = [], params = []\<rparr>"
  by (simp add: urlparse_eval)

lemma urlparse_ab:
  "urlparse lib ''http://h/p?a=1&b=2'' =
     Inr \<lparr>scheme = ''http'', netloc = ''h'', path = ''/p'', query = ''a=1&b=2'', fragment = [], params = []\<rparr>"
  by (simp add: urlparse_eval)

lemma sorted_query_ba:
  "urlencode (sort_key fst (parse_qs ''b=2&a=1'')) = Inr ''a=1&b=2''"
  by (simp add: query_eval)

lemma sorted_query_ab:
  "urlencode (sort_key fst (parse_qs ''a=1&b=2'')) = Inr ''a=1&b=2''"
  by (simp add: query_eval)

text \<open>
  C2. The utility normaliser maps the two URLs of the specification's example to the same
  string; the crawler's own normaliser returns each with its query string as written, so
  the two results differ.
\<close>

theorem query_order_example:
  "normalize_url lib ''http://h/p?b=2&a=1'' = ''http://h/p?a=1&b=2''
   \<and> normalize_url lib ''http://h/p?a=1&b=2'' = ''http://h/p?a=1&b=2''
   \<and> crawler_normalize_url lib ''http://h/p?b=2&a=1'' = Inr ''http://h/p?b=2&a=1''
   \<and> crawler_normalize_url lib ''http://h/p?a=1&b=2'' = Inr ''http://h/p?a=1&b=2''
   \<and> crawler_normalize_url lib ''http://h/p?b=2&a=1'' \<noteq> crawler_normalize_url lib ''http://h/p?a=1&b=2''"
  by (simp add: normalize_url_def normalize_url_try_def crawler_normalize_url_def
        urlparse_ba urlparse_ab sorted_query_ba sorted_query_ab)

lemma urlparse_blank:
  "urlparse lib ''http://h/p?a='' =
     Inr \<lparr>scheme = ''http'', netloc = ''h'', path = ''/p'', query = ''a='', fragment = [], params = []\<rparr>"
  by (simp add: urlparse_eval)

lemma urlparse_qmark:
  "urlparse lib ''http://h/p?'' =
     Inr \<lparr>scheme = ''http'', netloc = ''h'', path = ''/p'', query = [], fragment = [], params = []\<rparr>"
  by (simp add: urlparse_eval)

lemma sorted_query_blank:
  "urlencode (sort_key fst (parse_qs ''a='')) = Inr []"
  by (simp add: query_eval)

text \<open>
  C9. A query whose parameters all have blank values is parsed to no parameter at all,
  and the normal form keeps the question mark; normalising again removes it.
\<close>

theorem normalize_not_idempotent:
  "normalize_url lib ''http://h/p?a='' = ''http://h/p?''
   \<and> normalize_url lib (normalize_url lib ''http://h/p?a='') = ''http://h/p''
   \<and> normalize_url lib (normalize_url lib ''http://h/p?a='') \<noteq> normalize_url lib ''http://h/p?a=''"
  by (simp add: normalize_url_def normalize_url_try_def urlparse_blank urlparse_qmark
        sorted_query_blank)

lemma urlparse_bracket:
  "urlparse lib ''http://['' = Inl (ValueError ''Invalid IPv6 URL'')"
  by (simp add: urlparse_eval)

lemma is_valid_url_parses:
  assumes "is_valid_url lib cfg u"
  shows "\<exists>parsed. urlparse lib u = Inr parsed"
  using assms by (auto simp: is_valid_url_def is_valid_url_try_def split: sum.splits)

lemma crawler_normalize_url_total:
  "(\<exists>n. crawler_normalize_url lib u = Inr n) \<longleftrightarrow> (\<exists>parsed. urlparse lib u = Inr parsed)"
  by (auto simp: crawler_normalize_url_def Let_def split: sum.splits)

text \<open>
  C7 (as the code has it). The utility normaliser returns a string for every input, and
  returns the input unchanged whenever \<open>urlparse\<close>, or anything else in its \<open>try\<close> block,
  raises. The crawler's own normaliser has no handler: it raises what \<open>urlparse\<close> raises.
  It returns normally on every URL that \<open>is_valid_url\<close> accepts, and the crawler calls it
  on those only.
\<close>

theorem normalize_fail_open:
  "(urlparse lib u = Inl e \<longrightarrow> normalize_url lib u = u)
   \<and> (normalize_url_try lib u = Inl e \<longrightarrow> normalize_url lib u = u)
   \<and> (urlparse lib u = Inl e \<longrightarrow> crawler_normalize_url lib u = Inl e)
   \<and> (is_valid_url lib cfg u \<longrightarrow> (\<exists>n. crawler_normalize_url lib u = Inr n))"
proof -
  have "is_valid_url lib cfg u \<longrightarrow> (\<exists>n. crawler_normalize_url lib u = Inr n)"
    using is_valid_url_parses crawler_normalize_url_total by blast
  then show ?thesis
    by (simp add: normalize_url_def normalize_url_try_def crawler_normalize_url_def)
qed


lemma site_valid_a: "is_valid_url lib (init_config site_config) ''http://h/a.html''"
  by (simp add: is_valid_url_def is_valid_url_try_def urlparse_h urlparse_a
        site_config_def default_config_def init_config_def truthy_set_def any_endswith_def
        default_ignored_extensions_def default_focused_extensions_def endswith_def
        py_lower_def py_lower_char_def ascii_lowercase_def ascii_uppercase_def
        latin1_uppercase_def latin1_lowercase_def)

theorem normalize_fail_open_witness:
  "urlparse no_host_checks ''http://['' = Inl (ValueError ''Invalid IPv6 URL'')
   \<and> normalize_url no_host_checks ''http://['' = ''http://[''
   \<and> is_valid_url no_host_checks (init_config site_config) ''http://h/a.html''
   \<and> crawler_normalize_url no_host_checks ''http://h/a.html'' = Inr ''http://h/a.html''"
proof -
  have p: "urlparse no_host_checks ''http://['' = Inl (ValueError ''Invalid IPv6 URL'')"
    by (rule urlparse_bracket)
  have v: "is_valid_url no_host_checks (init_config site_config) ''http://h/a.html''"
    by (rule site_valid_a)
  have n: "crawler_normalize_url no_host_checks ''http://h/a.html'' = Inr ''http://h/a.html''"
    by (simp add: crawler_normalize_url_def urlparse_a)
  have "normalize_url no_host_checks ''http://['' = ''http://[''"
    using p normalize_fail_open [of no_host_checks "''http://[''" "ValueError ''Invalid IPv6 URL''"]
    by simp
  then show ?thesis
    using p v n by simp
qed

text \<open>
  The claim as worded fails for the crawler's own normaliser: on \<open>http://[\<close> it raises.
\<close>

theorem crawler_normalize_raises_counterexample:
  "crawler_normalize_url no_host_checks ''http://['' = Inl (ValueError ''Invalid IPv6 URL'')"
  by (simp add: crawler_normalize_url_def urlparse_bracket)

section \<open>robots.txt parsers: properties\<close>

definition badbot_robots :: string where
  "badbot_robots = ''User-agent: BadBot'' @ [CHR 0x0A] @ ''Disallow: /private'' @ [CHR 0x0A]
                   @ ''Allow: /public''"

lemma badbot_lines:
  "py_split CHR 0x0A badbot_robots = [''User-agent: BadBot'', ''Disallow: /private'', ''Allow: /public'']"
  by (simp add: badbot_robots_def)

lemma badbot_directives:
  "line_directive ''User-agent: BadBot'' = Some (''user-agent'', ''BadBot'')"
  "line_directive ''Disallow: /private'' = Some (''disallow'', ''/private'')"
  "line_directive ''Allow: /public'' = Some (''allow'', ''/public'')"
  by (simp_all add: line_directive_def py_strip_def isspace_def startswith_def split1_def
        py_lower_def py_lower_char_def ascii_lowercase_def ascii_uppercase_def
        latin1_uppercase_def latin1_lowercase_def)

text \<open>
  The agent in force after a list of lines: the value of the last \<open>User-agent\<close> line, if
  any.
\<close>

definition agent_values :: "string list \<Rightarrow> string list" where
  "agent_values ls =
     concat (map (\<lambda>l. case line_directive l of
                          Some (d, v) \<Rightarrow> if d = ''user-agent'' then [v] else []
                        | None \<Rightarrow> []) ls)"

definition agent_after :: "string list \<Rightarrow> string option" where
  "agent_after ls = (case rev (agent_values ls) of [] \<Rightarrow> None | v # vs \<Rightarrow> Some v)"

text \<open>
  The values of the lines of \<open>ls\<close> with directive \<open>k\<close> that stand where the agent in
  force is the wildcard or none.
\<close>

definition scoped_values :: "string \<Rightarrow> string list \<Rightarrow> string list" where
  "scoped_values k ls =
     map (\<lambda>i. snd (the (line_directive (ls ! i))))
       (filter (\<lambda>i. (\<exists>v. line_directive (ls ! i) = Some (k, v))
                     \<and> wildcard_or_none (agent_after (take i ls)))
          [0..<length ls])"

lemma agent_after_snoc:
  "agent_after (ls @ [l]) =
     (case line_directive l of
        Some (d, v) \<Rightarrow> if d = ''user-agent'' then Some v else agent_after ls
      | None \<Rightarrow> agent_after ls)"
  by (auto simp: agent_after_def agent_values_def split: option.splits)

lemma scoped_values_snoc:
  "scoped_values k (ls @ [l]) =
     scoped_values k ls
     @ (case line_directive l of
          Some (d, v) \<Rightarrow> if d = k \<and> wildcard_or_none (agent_after ls) then [v] else []
        | None \<Rightarrow> [])"
proof -
  have "map (\<lambda>i. snd (the (line_directive ((ls @ [l]) ! i))))
          (filter (\<lambda>i. (\<exists>v. line_directive ((ls @ [l]) ! i) = Some (k, v))
                        \<and> wildcard_or_none (agent_after (take i (ls @ [l]))))
             [0..<length ls])
        = scoped_values k ls"
    unfolding scoped_values_def
    by (intro map_cong filter_cong refl arg_cong2 [where f = map]) (auto simp: nth_append)
  then show ?thesis
    by (auto simp: scoped_values_def split: option.splits)
qed

lemma scan_lines_agent: "current_user_agent (scan_lines ls) = agent_after ls"
proof (induction ls rule: rev_induct)
  case Nil
  show ?case by (simp add: scan_lines_def agent_after_def agent_values_def)
next
  case (snoc l ls)
  then show ?case
    by (auto simp: scan_lines_def agent_after_snoc robots_line_def split: option.splits)
qed

lemma scan_lines_recorded:
  "disallowed (scan_lines ls) = scoped_values ''disallow'' ls
   \<and> allowed (scan_lines ls) = scoped_values ''allow'' ls"
proof (induction ls rule: rev_induct)
  case Nil
  show ?case by (simp add: scan_lines_def scoped_values_def)
next
  case (snoc l ls)
  have step: "scan_lines (ls @ [l]) = robots_line (scan_lines ls) l"
    by (simp add: scan_lines_def)
  show ?case
    unfolding step scoped_values_snoc
    using snoc scan_lines_agent [of ls]
    by (auto simp: robots_line_def split: option.splits)
qed


text \<open>
  C3. The utility parser records the value of a Disallow (Allow) line exactly when the
  last User-agent line before it has the value \<open>*\<close>, or there is none. The crawler's own
  parser does not look at User-agent lines: for a robots.txt whose only block is for the
  agent \<open>BadBot\<close>, where the utility parser records no path, it records both the
  Disallow and the Allow path.
\<close>

theorem robots_scope:
  "disallowed (parse_robots_txt_content content)
     = scoped_values ''disallow'' (py_split CHR 0x0A content)
   \<and> allowed (parse_robots_txt_content content)
     = scoped_values ''allow'' (py_split CHR 0x0A content)
   \<and> disallowed (parse_robots_txt_content badbot_robots) = []
   \<and> allowed (parse_robots_txt_content badbot_robots) = []
   \<and> user_agents (parse_robots_txt_content badbot_robots) = [''BadBot'']
   \<and> disallowed_paths (crawler_parse_robots badbot_robots) = {''/private''}
   \<and> allowed_paths (crawler_parse_robots badbot_robots) = {''/public''}"
proof -
  have "parse_robots_txt_content badbot_robots =
          \<lparr>disallowed = [], allowed = [], user_agents = [''BadBot''],
           current_user_agent = Some ''BadBot''\<rparr>"
    by (simp add: parse_robots_txt_content_def scan_lines_def badbot_lines robots_line_def
          badbot_directives wildcard_or_none_def)
  moreover have "crawler_parse_robots badbot_robots =
          \<lparr>disallowed_paths = {''/private''}, allowed_paths = {''/public''}\<rparr>"
    by (simp add: crawler_parse_robots_def badbot_lines crawler_robots_line_def Let_def
          py_strip_def isspace_def startswith_def split1_def)
  ultimately show ?thesis
    using scan_lines_recorded [of "py_split CHR 0x0A content"]
    by (simp add: parse_robots_txt_content_def)
qed


section \<open>Admission under the default configuration\<close>

text \<open>A link that the crawler can put on the queue: the normal form of an accepted URL.\<close>

definition admitted :: "stdlib \<Rightarrow> CrawlConfig \<Rightarrow> string \<Rightarrow> bool" where
  "admitted lib cfg l = (\<exists>full. is_valid_url lib cfg full \<and> crawler_normalize_url lib full = Inr l)"

lemma extract_links_admitted:
  "extract_links lib cfg hs = Inr ls \<Longrightarrow> l \<in> set ls \<Longrightarrow> admitted lib cfg l"
proof (induction lib cfg hs arbitrary: ls rule: extract_links.induct)
  case (1 lib cfg)
  then show ?case by simp
next
  case (2 lib cfg e hs)
  then show ?case by simp
next
  case (3 lib cfg full_url hs)
  show ?case
  proof (cases "is_valid_url lib cfg full_url")
    case True
    then obtain n ls' where n: "crawler_normalize_url lib full_url = Inr n"
        and r: "extract_links lib cfg hs = Inr ls'" and ls: "ls = n # ls'"
      using "3.prems"(1) by (auto split: sum.splits)
    show ?thesis
    proof (cases "l = n")
      case True
      then show ?thesis
        using n \<open>is_valid_url lib cfg full_url\<close> by (auto simp: admitted_def)
    next
      case False
      then have "l \<in> set ls'" using "3.prems"(2) ls by simp
      then show ?thesis
        using "3.IH"(1) [OF True n r] by simp
    qed
  next
    case False
    then show ?thesis
      using "3.prems" "3.IH"(2) by simp
  qed
qed

lemma extract_links_playwright_admitted:
  "l \<in> set (extract_links_playwright lib cfg hs) \<Longrightarrow> admitted lib cfg l"
  by (induction lib cfg hs rule: extract_links_playwright.induct)
     (auto simp: admitted_def split: if_splits sum.splits)

lemma fetch_page_links_admitted:
  assumes "fetch_page W lib cfg s u d = Inr r" "l \<in> set (links r)"
  shows "admitted lib cfg l"
proof (cases "use_playwright cfg")
  case True
  then show ?thesis
    using assms extract_links_playwright_admitted
    by (auto simp: fetch_page_def crawl_with_playwright_def split: sum.splits)
next
  case False
  then show ?thesis
    using assms extract_links_admitted
    by (auto simp: fetch_page_def crawl_with_requests_def split: sum.splits)
qed

lemma crawl_page_links_admitted:
  assumes "crawl_page W lib cfg s u d = (Some r, s')" "l \<in> set (links r)"
  shows "admitted lib cfg l"
proof (cases "u \<in> visited_urls s")
  case True
  then show ?thesis
    using assms by (simp add: crawl_page_visited)
next
  case nv: False
  show ?thesis
  proof (cases "respect_robots cfg \<and> \<not> override_robots cfg")
    case True
    then show ?thesis
      using assms crawl_page_robots [OF nv True, of W lib d] by (auto simp: error_result_def)
  next
    case nr: False
    show ?thesis
    proof (cases "fetch_page W lib cfg (s\<lparr>visited_urls := insert u (visited_urls s)\<rparr>) u d")
      case (Inl e)
      then show ?thesis
        using assms crawl_page_fetch_error [OF nv nr Inl] by (auto simp: error_result_def)
    next
      case (Inr r')
      then show ?thesis
        using assms crawl_page_fetch_ok [OF nv nr Inr] fetch_page_links_admitted [OF Inr]
        by auto
    qed
  qed
qed

lemma crawl_iter_queue_admitted:
  assumes "url_queue s = (u, d) # q" "t \<in> set (url_queue (crawl_iter W lib cfg s))"
  shows "t \<in> set q \<or> admitted lib cfg (fst t)"
proof (cases "d > max_depth cfg")
  case True
  then show ?thesis
    using assms crawl_iter_deep [OF assms(1) True] by simp
next
  case False
  obtain res s2 where cp: "crawl_page W lib cfg (s\<lparr>url_queue := q\<rparr>) u d = (res, s2)"
    by (cases "crawl_page W lib cfg (s\<lparr>url_queue := q\<rparr>) u d")
  have q2: "url_queue s2 = q"
    using crawl_page_queue [of W lib cfg "s\<lparr>url_queue := q\<rparr>" u d] cp by simp
  show ?thesis
  proof (cases res)
    case None
    then show ?thesis
      using assms False cp q2 by (simp add: crawl_iter_def)
  next
    case (Some r)
    then have "\<And>l. l \<in> set (links r) \<Longrightarrow> admitted lib cfg l"
      using crawl_page_links_admitted cp by blast
    then show ?thesis
      using assms False cp q2 Some by (auto simp: crawl_iter_def split: if_splits)
  qed
qed

definition queue_inv :: "stdlib \<Rightarrow> CrawlConfig \<Rightarrow> string set \<Rightarrow> crawler \<Rightarrow> bool" where
  "queue_inv lib cfg seeds s =
     ((\<forall>t \<in> set (url_queue s). fst t \<in> seeds \<or> admitted lib cfg (fst t))
      \<and> (\<forall>u \<in> set (fetch_log s). u \<in> seeds \<or> admitted lib cfg u))"

lemma queue_step:
  assumes "queue_inv lib cfg seeds s" "loop_cond cfg s"
  shows "queue_inv lib cfg seeds (crawl_iter W lib cfg s)"
proof -
  obtain u d q where q: "url_queue s = (u, d) # q"
    using assms(2) by (cases "url_queue s") (auto simp: loop_cond_def)
  have hd: "u \<in> seeds \<or> admitted lib cfg u"
    using assms(1) q by (auto simp: queue_inv_def)
  have "\<forall>t \<in> set (url_queue (crawl_iter W lib cfg s)). fst t \<in> seeds \<or> admitted lib cfg (fst t)"
    using crawl_iter_queue_admitted [OF q] assms(1) q by (fastforce simp: queue_inv_def)
  moreover have "\<forall>u' \<in> set (fetch_log (crawl_iter W lib cfg s)). u' \<in> seeds \<or> admitted lib cfg u'"
    using crawl_iter_effect [OF q, of W lib cfg] assms(1) hd by (auto simp: queue_inv_def)
  ultimately show ?thesis
    by (simp add: queue_inv_def)
qed


lemma is_valid_url_focused:
  assumes "is_valid_url lib cfg u" "focused_extensions cfg = Some S" "S \<noteq> {}"
  shows "\<exists>parsed. urlparse lib u = Inr parsed \<and> (\<exists>ext \<in> S. endswith (py_lower (path parsed)) ext)"
  using assms
  by (auto simp: is_valid_url_def is_valid_url_try_def Let_def truthy_set_def any_endswith_def
      split: sum.splits if_splits)

lemma init_config_focused:
  "focused_extensions cfg = None \<Longrightarrow>
     focused_extensions (init_config cfg) = Some default_focused_extensions"
  by (simp add: init_config_def)

lemma default_focused_nonempty: "default_focused_extensions \<noteq> {}"
  by (simp add: default_focused_extensions_def)

text \<open>
  C10. When the configuration names no focused extensions, the crawler fills in the seven
  default ones, and \<open>is_valid_url\<close> then rejects every URL whose path, in lower case, ends
  with none of them. Every link a crawled page contributes has passed \<open>is_valid_url\<close>; so
  in every state of the crawl loop, each queued or fetched URL is either one of the URLs
  queued before the loop (the base URL, and what the optional discovery passes found) or
  the normal form of a URL whose lower-case path ends with a default extension.
\<close>

theorem default_focus_rejects:
  assumes "focused_extensions cfg = None"
  shows "focused_extensions (init_config cfg) = Some default_focused_extensions
       \<and> default_focused_extensions
            = {''.html'', ''.php'', ''.asp'', ''.aspx'', ''.jsp'', ''.js'', ''.css''}
       \<and> (urlparse lib u = Inr parsed
            \<and> \<not> (\<exists>ext \<in> default_focused_extensions. endswith (py_lower (path parsed)) ext)
            \<longrightarrow> \<not> is_valid_url lib (init_config cfg) u)
       \<and> (\<forall>t \<in> set (url_queue (loop_state W lib (init_config cfg) n (crawl_start W (init_config cfg)))).
              fst t \<in> fst ` set (url_queue (crawl_start W (init_config cfg)))
              \<or> (\<exists>full p. is_valid_url lib (init_config cfg) full
                    \<and> crawler_normalize_url lib full = Inr (fst t)
                    \<and> urlparse lib full = Inr p
                    \<and> (\<exists>ext \<in> default_focused_extensions. endswith (py_lower (path p)) ext)))
       \<and> (\<forall>v \<in> set (fetch_log (loop_state W lib (init_config cfg) n (crawl_start W (init_config cfg)))).
              v \<in> fst ` set (url_queue (crawl_start W (init_config cfg)))
              \<or> (\<exists>full p. is_valid_url lib (init_config cfg) full
                    \<and> crawler_normalize_url lib full = Inr v
                    \<and> urlparse lib full = Inr p
                    \<and> (\<exists>ext \<in> default_focused_extensions. endswith (py_lower (path p)) ext)))"
proof -
  let ?c = "init_config cfg"
  let ?E = "default_focused_extensions"
  let ?seeds = "fst ` set (url_queue (crawl_start W ?c))"
  have foc: "focused_extensions ?c = Some ?E"
    by (rule init_config_focused [OF assms])
  have exts: "?E = {''.html'', ''.php'', ''.asp'', ''.aspx'', ''.jsp'', ''.js'', ''.css''}"
    by (rule default_focused_extensions_def)
  have valid: "\<And>full. is_valid_url lib ?c full \<Longrightarrow>
                 \<exists>p. urlparse lib full = Inr p \<and> (\<exists>ext \<in> ?E. endswith (py_lower (path p)) ext)"
    by (rule is_valid_url_focused [OF _ foc default_focused_nonempty])
  have rej: "urlparse lib u = Inr parsed \<and> \<not> (\<exists>ext \<in> ?E. endswith (py_lower (path parsed)) ext)
             \<longrightarrow> \<not> is_valid_url lib ?c u"
    using valid [of u] by auto
  have adm: "\<And>l. admitted lib ?c l \<Longrightarrow>
               \<exists>full p. is_valid_url lib ?c full \<and> crawler_normalize_url lib full = Inr l
                        \<and> urlparse lib full = Inr p \<and> (\<exists>ext \<in> ?E. endswith (py_lower (path p)) ext)"
    using valid unfolding admitted_def by blast
  have start: "queue_inv lib ?c ?seeds (crawl_start W ?c)"
    by (simp add: queue_inv_def crawl_start_fresh)
  have step: "\<And>t. queue_inv lib ?c ?seeds t \<Longrightarrow> loop_cond ?c t
                \<Longrightarrow> queue_inv lib ?c ?seeds (crawl_iter W lib ?c t)"
    by (rule queue_step)
  have inv: "queue_inv lib ?c ?seeds (loop_state W lib ?c n (crawl_start W ?c))"
    using start step by (rule loop_state_invariant)
  have q: "\<forall>t \<in> set (url_queue (loop_state W lib ?c n (crawl_start W ?c))).
              fst t \<in> ?seeds
              \<or> (\<exists>full p. is_valid_url lib ?c full \<and> crawler_normalize_url lib full = Inr (fst t)
                    \<and> urlparse lib full = Inr p \<and> (\<exists>ext \<in> ?E. endswith (py_lower (path p)) ext))"
  proof
    fix t
    assume "t \<in> set (url_queue (loop_state W lib ?c n (crawl_start W ?c)))"
    then have "fst t \<in> ?seeds \<or> admitted lib ?c (fst t)"
      using inv by (simp add: queue_inv_def)
    then show "fst t \<in> ?seeds
              \<or> (\<exists>full p. is_valid_url lib ?c full \<and> crawler_normalize_url lib full = Inr (fst t)
                    \<and> urlparse lib full = Inr p \<and> (\<exists>ext \<in> ?E. endswith (py_lower (path p)) ext))"
      using adm [of "fst t"] by blast
  qed
  have f: "\<forall>v \<in> set (fetch_log (loop_state W lib ?c n (crawl_start W ?c))).
              v \<in> ?seeds
              \<or> (\<exists>full p. is_valid_url lib ?c full \<and> crawler_normalize_url lib full = Inr v
                    \<and> urlparse lib full = Inr p \<and> (\<exists>ext \<in> ?E. endswith (py_lower (path p)) ext))"
  proof
    fix v
    assume "v \<in> set (fetch_log (loop_state W lib ?c n (crawl_start W ?c)))"
    then have "v \<in> ?seeds \<or> admitted lib ?c v"
      using inv by (simp add: queue_inv_def)
    then show "v \<in> ?seeds
              \<or> (\<exists>full p. is_valid_url lib ?c full \<and> crawler_normalize_url lib full = Inr v
                    \<and> urlparse lib full = Inr p \<and> (\<exists>ext \<in> ?E. endswith (py_lower (path p)) ext))"
      using adm [of v] by blast
  qed
  show ?thesis
    by (rule conjI [OF foc conjI [OF exts conjI [OF rej conjI [OF q f]]]])
qed

lemma urlparse_host_a:
  "urlparse lib ''http://host/a'' =
     Inr \<lparr>scheme = ''http'', netloc = ''host'', path = ''/a'', query = [], fragment = [], params = []\<rparr>"
  by (simp add: urlparse_eval)

theorem default_focus_rejects_witness:
  "focused_extensions (default_config ''http://host'') = None
   \<and> urlparse no_host_checks ''http://host/a'' =
        Inr \<lparr>scheme = ''http'', netloc = ''host'', path = ''/a'', query = [], fragment = [], params = []\<rparr>
   \<and> \<not> is_valid_url no_host_checks (init_config (default_config ''http://host'')) ''http://host/a''"
proof -
  have h: "focused_extensions (default_config ''http://host'') = None"
    by (simp add: default_config_def)
  have e: "\<not> (\<exists>ext \<in> default_focused_extensions. endswith (py_lower ''/a'') ext)"
    by (simp add: default_focused_extensions_def endswith_def py_lower_def py_lower_char_def
          ascii_lowercase_def ascii_uppercase_def latin1_uppercase_def latin1_lowercase_def)
  have "\<not> is_valid_url no_host_checks (init_config (default_config ''http://host'')) ''http://host/a''"
    using e urlparse_host_a [of no_host_checks]
      default_focus_rejects [OF h, of no_host_checks "''http://host/a''"
        "\<lparr>scheme = ''http'', netloc = ''host'', path = ''/a'', query = [], fragment = [], params = []\<rparr>"]
    by simp
  then show ?thesis
    using h urlparse_host_a [of no_host_checks] by simp
qed


end
